theory Spec2Isabelle
  imports Main "HOL-Library.Finite_Map" "HOL-Library.List_Lexorder" "HOL-Library.Char_ord"
begin

section \<open>Failures of a run\<close>

text \<open>
  The script \<^verbatim>\<open>find_and_copy_deps.py\<close> ends a run either by \<^verbatim>\<open>sys.exit(1)\<close> after printing a
  message, or by an exception that nothing catches. Both are values here. An uncaught
  exception makes the Python interpreter exit with status 1.
\<close>

datatype failure =
    SystemExit nat string
  | KeyError string
  | IndexError
  | OSError
  | SameFileError
  | TypeError

fun exit_status :: "failure \<Rightarrow> nat" where
  "exit_status (SystemExit n msg) = n"
| "exit_status (KeyError k) = 1"
| "exit_status IndexError = 1"
| "exit_status OSError = 1"
| "exit_status SameFileError = 1"
| "exit_status TypeError = 1"

section \<open>The dependency graph and its transitive closure\<close>

text \<open>
  \<^verbatim>\<open>json_dict\<close> has the two entries \<^verbatim>\<open>"binary_deps"\<close> (key to list of direct dependency
  keys) and \<^verbatim>\<open>"binary_locations"\<close> (key to path). Python dictionaries are finite maps.
\<close>

record json_dict =
  binary_deps :: "(string, string list) fmap"
  binary_locations :: "(string, string) fmap"

text \<open>
  The \<^verbatim>\<open>while len(deps_list) > 0\<close> loop of \<^verbatim>\<open>get_all_deps_for_binary\<close>: \<^verbatim>\<open>deps_list.pop()\<close>
  takes the last element, \<^verbatim>\<open>deps_list += d[dep]\<close> appends, and \<^verbatim>\<open>d[dep]\<close> raises
  \<^verbatim>\<open>KeyError\<close> for a missing key.
\<close>

function closure_loop ::
  "(string, string list) fmap \<Rightarrow> string list \<Rightarrow> string set \<Rightarrow> failure + string set" where
  "closure_loop deps deps_list ret =
     (if deps_list = [] then Inr ret
      else if last deps_list \<notin> ret then
        (case fmlookup deps (last deps_list) of
           None \<Rightarrow> Inl (KeyError (last deps_list))
         | Some ds \<Rightarrow> closure_loop deps (butlast deps_list @ ds) (insert (last deps_list) ret))
      else closure_loop deps (butlast deps_list) ret)"
  by pat_completeness auto
termination
proof (relation "measures [\<lambda>(deps, deps_list, ret). card (fmdom' deps - ret),
                           \<lambda>(deps, deps_list, ret). length deps_list]")
  show "wf (measures [\<lambda>(deps, deps_list, ret). card (fmdom' deps - ret),
                      \<lambda>(deps, deps_list, ret). length deps_list])"
    by simp
next
  fix deps :: "(string, string list) fmap" and deps_list :: "string list"
    and ret :: "string set" and ds :: "string list"
  assume new: "last deps_list \<notin> ret" and key: "fmlookup deps (last deps_list) = Some ds"
  from key have "last deps_list \<in> fmdom' deps"
    by (simp add: fmdom'I)
  with new have "fmdom' deps - insert (last deps_list) ret \<subset> fmdom' deps - ret"
    by blast
  then have "card (fmdom' deps - insert (last deps_list) ret) < card (fmdom' deps - ret)"
    by (simp add: psubset_card_mono)
  then show "((deps, butlast deps_list @ ds, insert (last deps_list) ret), (deps, deps_list, ret))
      \<in> measures [\<lambda>(deps, deps_list, ret). card (fmdom' deps - ret),
                   \<lambda>(deps, deps_list, ret). length deps_list]"
    by simp
next
  fix deps :: "(string, string list) fmap" and deps_list :: "string list" and ret :: "string set"
  assume "deps_list \<noteq> []"
  then show "((deps, butlast deps_list, ret), (deps, deps_list, ret))
      \<in> measures [\<lambda>(deps, deps_list, ret). card (fmdom' deps - ret),
                   \<lambda>(deps, deps_list, ret). length deps_list]"
    by simp
qed

declare closure_loop.simps [simp del]

text \<open>
  \<^verbatim>\<open>get_all_deps_for_binary\<close>: \<^verbatim>\<open>None\<close> when the key is not in \<^verbatim>\<open>binary_deps\<close>, otherwise the
  loop started on a copy of the key's own list with an empty result set.
\<close>

definition get_all_deps_for_binary :: "string \<Rightarrow> json_dict \<Rightarrow> failure + string set option" where
  "get_all_deps_for_binary binary_key_name jd =
     (case fmlookup (binary_deps jd) binary_key_name of
        None \<Rightarrow> Inr None
      | Some ds \<Rightarrow>
          (case closure_loop (binary_deps jd) ds {} of
             Inl e \<Rightarrow> Inl e
           | Inr ret \<Rightarrow> Inr (Some ret)))"

text \<open>The edges of a graph, and the keys reachable from a key by one or more edges.\<close>

definition edges :: "(string, string list) fmap \<Rightarrow> (string \<times> string) set" where
  "edges deps = {(x, y). \<exists>ds. fmlookup deps x = Some ds \<and> y \<in> set ds}"

definition reachable :: "(string, string list) fmap \<Rightarrow> string \<Rightarrow> string set" where
  "reachable deps root = {y. (root, y) \<in> (edges deps)\<^sup>+}"

subsection \<open>Example graphs\<close>

definition cyclic_graph :: json_dict where
  "cyclic_graph =
     \<lparr>binary_deps = fmap_of_list [(''libA.so'', [''libB.so'']), (''libB.so'', [''libA.so''])],
      binary_locations = fmap_of_list [(''libA.so'', ''/b/libA.so''), (''libB.so'', ''/b/libB.so'')]\<rparr>"

definition example_graph :: json_dict where
  "example_graph =
     \<lparr>binary_deps = fmap_of_list [(''app'', [''libA.so'', ''libB.so'']), (''libA.so'', [''libC.so'']),
        (''libB.so'', []), (''libC.so'', [])],
      binary_locations = fmap_of_list [(''app'', ''/b/app''), (''libA.so'', ''/b/libA.so''),
        (''libB.so'', ''/b/libB.so''), (''libC.so'', ''/b/libC.so'')]\<rparr>"


definition open_graph :: json_dict where
  "open_graph =
     \<lparr>binary_deps = fmap_of_list [(''app'', [''libA.so'']), (''libA.so'', [''libB.so''])],
      binary_locations = fmap_of_list [(''app'', ''/b/app''), (''libA.so'', ''/b/libA.so'')]\<rparr>"

section \<open>The operating system, as the script sees it\<close>

text \<open>
  Everything the script asks of the interpreter's library and of the machine is a field of
  one record: the platform name, the text that \<^verbatim>\<open>ldd\<close> prints for a path, the functions of
  \<^verbatim>\<open>os.path\<close> (their results depend on the platform and on the file system), the output of
  \<^verbatim>\<open>cygpath -m\<close>, and the name of the temporary directory. \<^verbatim>\<open>os.path.samefile\<close> raises
  \<^verbatim>\<open>OSError\<close> when a path cannot be examined, which is the value \<open>None\<close>. Text is a list of
  characters with code points below 256; the output of \<^verbatim>\<open>ldd\<close> is taken as already decoded, and both programs
  are taken to start and to end.
\<close>

record os_env =
  platform :: string
  ldd_stdout :: "string \<Rightarrow> string"
  path_join :: "string \<Rightarrow> string \<Rightarrow> string"
  path_dirname :: "string \<Rightarrow> string"
  path_basename :: "string \<Rightarrow> string"
  path_splitext_root :: "string \<Rightarrow> string"
  path_exists :: "string \<Rightarrow> bool"
  path_isfile :: "string \<Rightarrow> bool"
  path_isdir :: "string \<Rightarrow> bool"
  path_samefile :: "string \<Rightarrow> string \<Rightarrow> bool option"
  cygpath :: "string \<Rightarrow> string"
  tmpdirname :: string

section \<open>Strings\<close>

text \<open>\<^verbatim>\<open>needle in haystack\<close> on strings.\<close>

fun substring_in :: "string \<Rightarrow> string \<Rightarrow> bool" where
  "substring_in s [] = (s = [])"
| "substring_in s (c # cs) = (take (length s) (c # cs) = s \<or> substring_in s cs)"

text \<open>
  \<^verbatim>\<open>str.lower\<close> and the white space of \<^verbatim>\<open>str.strip\<close>, for code points below 256: the
  capital letters are \<^verbatim>\<open>A\<close> to \<^verbatim>\<open>Z\<close> and the code points 192 to 222 except 215, each 32 below
  its small letter; white space is 9 to 13, 28 to 32, 133 and 160.
\<close>

definition lower_char :: "char \<Rightarrow> char" where
  "lower_char c =
     (if (65 \<le> (of_char c :: nat) \<and> (of_char c :: nat) \<le> 90)
         \<or> (192 \<le> (of_char c :: nat) \<and> (of_char c :: nat) \<le> 222 \<and> (of_char c :: nat) \<noteq> 215)
      then char_of (of_char c + 32 :: nat) else c)"

definition lower :: "string \<Rightarrow> string" where
  "lower s = map lower_char s"

definition isspace :: "char \<Rightarrow> bool" where
  "isspace c = ((9 \<le> (of_char c :: nat) \<and> (of_char c :: nat) \<le> 13)
                 \<or> (28 \<le> (of_char c :: nat) \<and> (of_char c :: nat) \<le> 32)
                 \<or> (of_char c :: nat) = 133 \<or> (of_char c :: nat) = 160)"

definition strip :: "string \<Rightarrow> string" where
  "strip s = rev (dropWhile isspace (rev (dropWhile isspace s)))"

text \<open>
  \<^verbatim>\<open>proc.stdout.readline()\<close>, called until it returns the empty string: the lines of the
  output, each with its newline, the last one possibly without.
\<close>

fun readlines :: "string \<Rightarrow> string list" where
  "readlines [] = []"
| "readlines (c # cs) =
     (if c = CHR 0x0A then [c] # readlines cs
      else (case readlines cs of [] \<Rightarrow> [[c]] | l # ls \<Rightarrow> (c # l) # ls))"

section \<open>The parser of one line\<close>

text \<open>
  \<^verbatim>\<open>re.compile("^([^ ]+) => ([^(]+)( (.*))?$").match(line)\<close>, giving groups 1 and 2.
  Group 1 is the longest prefix without a space and is not empty; the text \<^verbatim>\<open> => \<close> follows.
  Group 2 is greedy over characters other than \<^verbatim>\<open>(\<close>: when no \<^verbatim>\<open>(\<close> follows, it is the whole
  rest, which must not be empty; otherwise the match has to go on with a space and \<^verbatim>\<open>.*\<close>
  up to the end, so group 2 ends before the last space in front of the \<^verbatim>\<open>(\<close> and must not
  be empty, and \<^verbatim>\<open>.*$\<close> accepts the remainder when it has no newline except as its last
  character.
\<close>

definition ldd_regex_match :: "string \<Rightarrow> (string \<times> string) option" where
  "ldd_regex_match line =
     (let dep_name = takeWhile (\<lambda>c. c \<noteq> CHR '' '') line;
          after_name = dropWhile (\<lambda>c. c \<noteq> CHR '' '') line;
          after_arrow = drop 4 after_name;
          no_paren = takeWhile (\<lambda>c. c \<noteq> CHR ''('') after_arrow;
          from_paren = dropWhile (\<lambda>c. c \<noteq> CHR ''('') after_arrow;
          before_last_space = rev (drop 1 (dropWhile (\<lambda>c. c \<noteq> CHR '' '') (rev no_paren)));
          after_last_space = rev (takeWhile (\<lambda>c. c \<noteq> CHR '' '') (rev no_paren))
      in if dep_name = [] \<or> take 4 after_name \<noteq> '' => '' then None
         else if from_paren = [] then (if no_paren = [] then None else Some (dep_name, no_paren))
         else if CHR '' '' \<in> set no_paren \<and> before_last_space \<noteq> []
                 \<and> CHR 0x0A \<notin> set (butlast (after_last_space @ from_paren))
              then Some (dep_name, before_last_space)
         else None)"

text \<open>The lines that are passed over when the pattern does not match.\<close>

definition benign_line :: "string \<Rightarrow> bool" where
  "benign_line line =
     (substring_in ''linux-vdso.so.1'' line \<or> substring_in ''ld-linux-x86-64.so'' line
      \<or> substring_in ''statically linked'' line)"

section \<open>The per-binary dependency lister\<close>

definition system_libs_to_skip :: "os_env \<Rightarrow> string list" where
  "system_libs_to_skip env =
     (if platform env = ''linux'' then
        [''libc.so'', ''libdl.so'', ''libdrm.so'', ''libm.so'', ''libpthread.so'',
         ''libresolv.so'', ''libselinux.so'', ''libudev.so'', ''libGL.so'', ''libGLX.so'',
         ''libGLdispatch.so'', ''libX11.so'', ''libXau.so'', ''libXdmcp.so'', ''libXext.so'',
         ''libXfixes.so'', ''libXrender.so'']
      else [])"

text \<open>The condition of \<^verbatim>\<open># Skip self, Windows DLLs, and platform system libraries\<close>.\<close>

definition skipped :: "os_env \<Rightarrow> string \<Rightarrow> string \<Rightarrow> string \<Rightarrow> bool" where
  "skipped env my_name dep_name ldd_dep_location =
     (dep_name = my_name
      \<or> substring_in ''/c/windows/system'' (lower ldd_dep_location)
      \<or> substring_in ''/c/windows/winsxs/'' (lower ldd_dep_location)
      \<or> (length (system_libs_to_skip env) > 0
          \<and> list_ex (\<lambda>lib_name. substring_in lib_name ldd_dep_location) (system_libs_to_skip env)))"

text \<open>
  \<^verbatim>\<open>fix_location\<close>: on \<^verbatim>\<open>win32\<close> a path that starts with \<^verbatim>\<open>/\<close> is translated by \<^verbatim>\<open>cygpath\<close>;
  indexing the empty string raises \<^verbatim>\<open>IndexError\<close>.
\<close>

definition fix_location :: "os_env \<Rightarrow> string \<Rightarrow> failure + string" where
  "fix_location env location_path =
     (if platform env = ''win32'' then
        (case location_path of
           [] \<Rightarrow> Inl IndexError
         | c # cs \<Rightarrow> if c = CHR ''/'' then Inr (cygpath env location_path) else Inr location_path)
      else Inr location_path)"

text \<open>
  The \<^verbatim>\<open>for x in search_directories\<close> loop: the first directory in which the joined path
  exists and is a file.
\<close>

fun search_dep_location :: "os_env \<Rightarrow> string \<Rightarrow> string list \<Rightarrow> string option" where
  "search_dep_location env dep_name [] = None"
| "search_dep_location env dep_name (x # xs) =
     (if path_exists env (path_join env x dep_name) \<and> path_isfile env (path_join env x dep_name)
      then Some (path_join env x dep_name)
      else search_dep_location env dep_name xs)"

text \<open>
  The body of the \<^verbatim>\<open>while True\<close> loop for one line that \<^verbatim>\<open>readline\<close> returned. A found
  location counts when it is a non-empty string (\<^verbatim>\<open>if search_dep_location:\<close>).
\<close>

definition process_line ::
  "os_env \<Rightarrow> string \<Rightarrow> string list \<Rightarrow> string \<Rightarrow> (string \<times> string) set
     \<Rightarrow> failure + (string \<times> string) set" where
  "process_line env binary_path search_directories raw_line ret =
     (case ldd_regex_match (strip raw_line) of
        Some (dep_name, ldd_dep_location) \<Rightarrow>
          if skipped env (path_basename env binary_path) dep_name ldd_dep_location then Inr ret
          else
            (case search_dep_location env dep_name search_directories of
               Some (c # cs) \<Rightarrow>
                 (case fix_location env (c # cs) of
                    Inl e \<Rightarrow> Inl e
                  | Inr fixed \<Rightarrow> Inr (insert (dep_name, fixed) ret))
             | _ \<Rightarrow>
                 if ldd_dep_location = ''not found'' then
                   Inl (SystemExit 1
                     (binary_path @ '' depends on '' @ dep_name
                        @ '' but ldd could not find its location.''))
                 else
                   Inl (SystemExit 1
                     (''Could not find '' @ dep_name @ '' in search path, but ldd found it at ''
                        @ ldd_dep_location @ ''. Please update search paths and run again.''
                        @ [CHR 0x0A])))
      | None \<Rightarrow>
          if benign_line (strip raw_line) then Inr ret
          else Inl (SystemExit 1 (''Unexpected line in ldd output: '' @ strip raw_line)))"

fun ldd_loop ::
  "os_env \<Rightarrow> string \<Rightarrow> string list \<Rightarrow> string list \<Rightarrow> (string \<times> string) set
     \<Rightarrow> failure + (string \<times> string) set" where
  "ldd_loop env binary_path search_directories [] ret = Inr ret"
| "ldd_loop env binary_path search_directories (raw_line # raw_lines) ret =
     (case process_line env binary_path search_directories raw_line ret of
        Inl e \<Rightarrow> Inl e
      | Inr ret' \<Rightarrow> ldd_loop env binary_path search_directories raw_lines ret')"

definition get_deps_for_binary ::
  "os_env \<Rightarrow> string \<Rightarrow> string list \<Rightarrow> failure + (string \<times> string) set" where
  "get_deps_for_binary env binary_path search_directories =
     ldd_loop env binary_path search_directories (readlines (ldd_stdout env binary_path)) {}"

subsection \<open>An example machine\<close>

text \<open>
  A POSIX machine for the examples: \<^verbatim>\<open>posixpath.join\<close>, \<^verbatim>\<open>dirname\<close> and \<^verbatim>\<open>basename\<close>, files
  given by a list of paths, two paths the same file when they are equal, and the output of
  \<^verbatim>\<open>ldd\<close> given by a table.
\<close>

definition posix_join :: "string \<Rightarrow> string \<Rightarrow> string" where
  "posix_join a b =
     (if take 1 b = ''/'' then b
      else if a = [] \<or> last a = CHR ''/'' then a @ b
      else a @ ''/'' @ b)"

definition posix_basename :: "string \<Rightarrow> string" where
  "posix_basename p = rev (takeWhile (\<lambda>c. c \<noteq> CHR ''/'') (rev p))"

definition posix_dirname :: "string \<Rightarrow> string" where
  "posix_dirname p =
     (let head = rev (dropWhile (\<lambda>c. c \<noteq> CHR ''/'') (rev p))
      in if head \<noteq> [] \<and> \<not> list_all (\<lambda>c. c = CHR ''/'') head
         then rev (dropWhile (\<lambda>c. c = CHR ''/'') (rev head)) else head)"

definition posix_env :: "string list \<Rightarrow> (string \<times> string) list \<Rightarrow> os_env" where
  "posix_env files ldd_table =
     \<lparr>platform = ''linux'',
      ldd_stdout = (\<lambda>p. case map_of ldd_table p of None \<Rightarrow> [] | Some out \<Rightarrow> out),
      path_join = posix_join,
      path_dirname = posix_dirname,
      path_basename = posix_basename,
      path_splitext_root = (\<lambda>p. p),
      path_exists = (\<lambda>p. p \<in> set files),
      path_isfile = (\<lambda>p. p \<in> set files),
      path_isdir = (\<lambda>p. p = ''/out''),
      path_samefile = (\<lambda>p q. if p \<in> set files \<and> q \<in> set files then Some (p = q) else None),
      cygpath = (\<lambda>p. p),
      tmpdirname = ''/tmp/t''\<rparr>"

text \<open>The text that \<^verbatim>\<open>ldd\<close> prints: one line per entry, after a tab.\<close>

definition ldd_text :: "string list \<Rightarrow> string" where
  "ldd_text ls = concat (map (\<lambda>l. [CHR 0x09] @ l @ [CHR 0x0A]) ls)"

section \<open>The JSON document\<close>

text \<open>
  A JSON document as a value: strings, arrays, and objects as lists of members in the
  order in which they are written.
\<close>

datatype json_value = JString string | JArray "json_value list" | JObject "(string \<times> json_value) list"

text \<open>
  \<^verbatim>\<open>json.dump(json_dict, write_file, sort_keys=True, indent=2)\<close>: a dictionary becomes an
  object with its keys in sorted order, a list an array, a string a string. The layout of
  the text (\<^verbatim>\<open>indent=2\<close>) is the library's and is not modelled.
\<close>

definition json_object_of :: "('a \<Rightarrow> json_value) \<Rightarrow> (string, 'a) fmap \<Rightarrow> json_value" where
  "json_object_of encode m = JObject (map (\<lambda>(k, a). (k, encode a)) (sorted_list_of_fmap m))"

definition json_array_of :: "string list \<Rightarrow> json_value" where
  "json_array_of ds = JArray (map JString ds)"

definition json_dump :: "json_dict \<Rightarrow> json_value" where
  "json_dump jd =
     JObject
       [(''binary_deps'', json_object_of json_array_of (binary_deps jd)),
        (''binary_locations'', json_object_of JString (binary_locations jd))]"

text \<open>
  Modelled from the spec: the reader of the JSON round trip. The script writes the file and
  never reads it; the spec's round trip deserializes it, as \<^verbatim>\<open>json.load\<close> does: an object
  becomes a dictionary in which a later member replaces an earlier one with the same key,
  an array a list, a string a string. A document of another shape is not read.
\<close>

fun json_string :: "json_value \<Rightarrow> string option" where
  "json_string (JString s) = Some s"
| "json_string (JArray vs) = None"
| "json_string (JObject kvs) = None"

fun json_string_list :: "json_value \<Rightarrow> string list option" where
  "json_string_list (JArray vs) = those (map json_string vs)"
| "json_string_list (JString s) = None"
| "json_string_list (JObject kvs) = None"

fun json_object :: "(json_value \<Rightarrow> 'a option) \<Rightarrow> json_value \<Rightarrow> (string, 'a) fmap option" where
  "json_object read (JObject kvs) =
     map_option (\<lambda>vs. fmap_of_list (rev (zip (map fst kvs) vs))) (those (map (\<lambda>(k, v). read v) kvs))"
| "json_object read (JString s) = None"
| "json_object read (JArray vs) = None"

fun json_load :: "json_value \<Rightarrow> json_dict option" where
  "json_load (JObject kvs) =
     (case (map_of (rev kvs) ''binary_deps'', map_of (rev kvs) ''binary_locations'') of
        (Some d, Some l) \<Rightarrow>
          (case (json_object json_string_list d, json_object json_string l) of
             (Some deps, Some locations) \<Rightarrow> Some \<lparr>binary_deps = deps, binary_locations = locations\<rparr>
           | _ \<Rightarrow> None)
      | _ \<Rightarrow> None)"
| "json_load (JString s) = None"
| "json_load (JArray vs) = None"

section \<open>The graph builder\<close>

text \<open>
  The local variables of \<^verbatim>\<open>main\<close> that the \<^verbatim>\<open>while len(deps_remaining) > 0\<close> loop reads and
  writes. \<^verbatim>\<open>binary_deps_map\<close> is the local \<^verbatim>\<open>binary_deps\<close>.
\<close>

record builder_state =
  search_directories :: "string list"
  binary_name_to_location_map :: "(string, string) fmap"
  binary_deps_map :: "(string, string list) fmap"
  deps_remaining :: "string set"
  deps_visited :: "string set"

text \<open>
  Lines 173 to 175: the directory of the binary is appended to \<^verbatim>\<open>search_directories\<close>, the
  lister is called, and the directory is popped. \<^verbatim>\<open>sys.exit\<close> inside the lister leaves the
  function before the pop; the list as it is at that moment is part of the failure.
\<close>

definition list_dependencies_step ::
  "os_env \<Rightarrow> string \<Rightarrow> string list
     \<Rightarrow> (failure \<times> string list) + ((string \<times> string) set \<times> string list)" where
  "list_dependencies_step env location dirs =
     (case get_deps_for_binary env location (dirs @ [path_dirname env location]) of
        Inl e \<Rightarrow> Inl (e, dirs @ [path_dirname env location])
      | Inr dep_info_list \<Rightarrow> Inr (dep_info_list, butlast (dirs @ [path_dirname env location])))"

text \<open>
  The \<^verbatim>\<open>for (dep_name, dep_location) in dep_info_list\<close> loop, over the pairs in the order in
  which the set hands them out. It carries \<^verbatim>\<open>deps_for_this_library\<close>, the location map and
  \<^verbatim>\<open>deps_remaining\<close>.
\<close>

fun dep_info_loop ::
  "os_env \<Rightarrow> string set \<Rightarrow> (string \<times> string) list
     \<Rightarrow> string set \<times> (string, string) fmap \<times> string set
     \<Rightarrow> failure + (string set \<times> (string, string) fmap \<times> string set)" where
  "dep_info_loop env visited [] acc = Inr acc"
| "dep_info_loop env visited ((dep_name, dep_location) # rest)
       (deps_for_this_library, locations, remaining) =
     (case fmlookup locations dep_name of
        None \<Rightarrow>
          dep_info_loop env visited rest
            (insert dep_name deps_for_this_library, fmupd dep_name dep_location locations,
             if dep_name \<notin> visited then insert dep_name remaining else remaining)
      | Some known \<Rightarrow>
          (case path_samefile env known dep_location of
             None \<Rightarrow> Inl OSError
           | Some same \<Rightarrow>
               if \<not> same then
                 Inl (SystemExit 1
                   (dep_name @ '' appears to have more than one location. ''
                      @ replicate 21 (CHR '' '') @ known @ '' and '' @ dep_location))
               else
                 dep_info_loop env visited rest
                   (insert dep_name deps_for_this_library, locations,
                    if dep_name \<notin> visited then insert dep_name remaining else remaining)))"

text \<open>
  One pass through the \<^verbatim>\<open>while\<close> body for the key \<open>x\<close> that \<^verbatim>\<open>deps_remaining.pop()\<close>
  returned and has already removed. Python fixes neither which element \<^verbatim>\<open>pop\<close> returns nor
  the order in which a set is iterated, so both are arguments: \<open>x\<close>, and the list \<open>order\<close>
  that enumerates \<^verbatim>\<open>dep_info_list\<close>. The result is \<open>None\<close> when \<open>order\<close> is not an enumeration
  of that set. A failure carries \<^verbatim>\<open>search_directories\<close> as the failure leaves it.
\<close>

definition loop_body ::
  "os_env \<Rightarrow> string \<Rightarrow> (string \<times> string) list \<Rightarrow> builder_state
     \<Rightarrow> ((failure \<times> string list) + builder_state) option" where
  "loop_body env x order st =
     (if x \<in> deps_visited st then Some (Inr st)
      else
        (case fmlookup (binary_name_to_location_map st) x of
           None \<Rightarrow> Some (Inl (KeyError x, search_directories st))
         | Some location \<Rightarrow>
             (case list_dependencies_step env location (search_directories st) of
                Inl abort \<Rightarrow> Some (Inl abort)
              | Inr (dep_info_list, dirs) \<Rightarrow>
                  if set order \<noteq> dep_info_list \<or> \<not> distinct order then None
                  else
                    (case dep_info_loop env (insert x (deps_visited st)) order
                            ({}, binary_name_to_location_map st, deps_remaining st) of
                       Inl e \<Rightarrow> Some (Inl (e, dirs))
                     | Inr (deps_for_this_library, locations, remaining) \<Rightarrow>
                         Some (Inr
                           \<lparr>search_directories = dirs,
                            binary_name_to_location_map = locations,
                            binary_deps_map =
                              fmupd x (sorted_list_of_set deps_for_this_library) (binary_deps_map st),
                            deps_remaining = remaining,
                            deps_visited = insert x (deps_visited st)\<rparr>)))))"

text \<open>
  The \<^verbatim>\<open>while\<close> loop, driven by a schedule: the keys that \<^verbatim>\<open>pop\<close> returns, each with the
  iteration order of its \<^verbatim>\<open>dep_info_list\<close>. The result is \<open>None\<close> when the schedule names a key
  that is not pending or ends while keys are pending: then it describes no run.
\<close>

type_synonym schedule = "(string \<times> (string \<times> string) list) list"

fun run_loop ::
  "os_env \<Rightarrow> schedule \<Rightarrow> builder_state \<Rightarrow> ((failure \<times> string list) + builder_state) option" where
  "run_loop env [] st = (if deps_remaining st = {} then Some (Inr st) else None)"
| "run_loop env ((x, order) # sched) st =
     (if deps_remaining st = {} then Some (Inr st)
      else if x \<notin> deps_remaining st then None
      else
        (case loop_body env x order (st\<lparr>deps_remaining := deps_remaining st - {x}\<rparr>) of
           None \<Rightarrow> None
         | Some (Inl abort) \<Rightarrow> Some (Inl abort)
         | Some (Inr st') \<Rightarrow> run_loop env sched st'))"

text \<open>
  The state at the head of the loop after the passes of a schedule, when each of them was
  entered with a pending key and none failed.
\<close>

fun loop_head_after :: "os_env \<Rightarrow> schedule \<Rightarrow> builder_state \<Rightarrow> builder_state option" where
  "loop_head_after env [] st = Some st"
| "loop_head_after env ((x, order) # sched) st =
     (if x \<notin> deps_remaining st then None
      else
        (case loop_body env x order (st\<lparr>deps_remaining := deps_remaining st - {x}\<rparr>) of
           Some (Inr st') \<Rightarrow> loop_head_after env sched st'
         | _ \<Rightarrow> None))"

section \<open>The main program\<close>

record cmd_line_args =
  json :: "string option"
  manifest :: "string option"
  target_binary :: string
  output_directory :: string
  search_directories_arg :: "string list"

text \<open>
  What a run writes: \<^verbatim>\<open>shutil.copyfile\<close> of the plugin into the temporary directory (which
  is new, so the copy cannot meet the plugin itself),
  \<^verbatim>\<open>shutil.copy\<close> of a dependency into the output directory, \<^verbatim>\<open>json.dump\<close> of \<^verbatim>\<open>json_dict\<close> to the
  file named by \<^verbatim>\<open>--json\<close>, and the manifest text written to the file named by \<^verbatim>\<open>--manifest\<close>.
\<close>

datatype effect =
    CopyFile string string
  | Copy string string
  | JsonDump string json_value
  | WriteManifest string string

fun is_output :: "effect \<Rightarrow> bool" where
  "is_output (CopyFile src dst) = False"
| "is_output (Copy src dst) = True"
| "is_output (JsonDump path document) = True"
| "is_output (WriteManifest path text) = True"

definition endswith :: "string \<Rightarrow> string \<Rightarrow> bool" where
  "endswith s suffix = (length suffix \<le> length s \<and> drop (length s - length suffix) s = suffix)"

definition binary_key_name :: "os_env \<Rightarrow> cmd_line_args \<Rightarrow> string" where
  "binary_key_name env args = path_basename env (target_binary args)"

definition renamed_plugin :: "os_env \<Rightarrow> cmd_line_args \<Rightarrow> bool" where
  "renamed_plugin env args = (platform env = ''win32'' \<and> endswith (target_binary args) ''.ofx'')"

definition ldd_filename_path :: "os_env \<Rightarrow> cmd_line_args \<Rightarrow> string" where
  "ldd_filename_path env args =
     (if renamed_plugin env args then
        path_join env (tmpdirname env)
          (path_splitext_root env (path_basename env (target_binary args)) @ ''.dll'')
      else target_binary args)"

definition preparation :: "os_env \<Rightarrow> cmd_line_args \<Rightarrow> effect list" where
  "preparation env args =
     (if renamed_plugin env args then [CopyFile (target_binary args) (ldd_filename_path env args)]
      else [])"

definition initial_state :: "os_env \<Rightarrow> cmd_line_args \<Rightarrow> builder_state" where
  "initial_state env args =
     \<lparr>search_directories = search_directories_arg args,
      binary_name_to_location_map = fmupd (binary_key_name env args) (ldd_filename_path env args) fmempty,
      binary_deps_map = fmempty,
      deps_remaining = {binary_key_name env args},
      deps_visited = {}\<rparr>"

text \<open>
  The \<^verbatim>\<open>for x in full_deps_list\<close> loop that copies; a missing key raises \<^verbatim>\<open>KeyError\<close>.
  \<^verbatim>\<open>shutil.copy(src, output_directory)\<close> writes to the base name of \<^verbatim>\<open>src\<close> in the directory and
  raises \<^verbatim>\<open>SameFileError\<close> when that is the file \<^verbatim>\<open>src\<close> itself; a path that cannot be examined
  counts as another file. Other failures of the file system are not modelled.
\<close>

fun copy_loop ::
  "os_env \<Rightarrow> (string, string) fmap \<Rightarrow> string \<Rightarrow> string list \<Rightarrow> failure option \<times> effect list" where
  "copy_loop env locations out [] = (None, [])"
| "copy_loop env locations out (x # xs) =
     (case fmlookup locations x of
        None \<Rightarrow> (Some (KeyError x), [])
      | Some src \<Rightarrow>
          if path_samefile env src (path_join env out (path_basename env src)) = Some True
          then (Some SameFileError, [])
          else (case copy_loop env locations out xs of (r, effs) \<Rightarrow> (r, Copy src out # effs)))"

definition manifest_text :: "string \<Rightarrow> string list \<Rightarrow> string" where
  "manifest_text name full_deps_list =
     ''<?xml version='' @ [CHR 0x22] @ ''1.0'' @ [CHR 0x22] @ '' encoding='' @ [CHR 0x22] @ ''UTF-8''
       @ [CHR 0x22] @ '' standalone='' @ [CHR 0x22] @ ''yes'' @ [CHR 0x22] @ ''?>'' @ [CHR 0x0A]
     @ ''<assembly xmlns='' @ [CHR 0x22] @ ''urn:schemas-microsoft-com:asm.v1'' @ [CHR 0x22]
       @ '' manifestVersion='' @ [CHR 0x22] @ ''1.0'' @ [CHR 0x22] @ ''>'' @ [CHR 0x0A]
     @ ''  <assemblyIdentity name='' @ [CHR 0x22] @ name @ [CHR 0x22] @ '' version='' @ [CHR 0x22]
       @ ''1.0.0.0'' @ [CHR 0x22] @ '' type='' @ [CHR 0x22] @ ''win32'' @ [CHR 0x22]
       @ '' processorArchitecture='' @ [CHR 0x22] @ ''amd64'' @ [CHR 0x22] @ ''/>'' @ [CHR 0x0A]
     @ concat (map (\<lambda>x. ''  <file name='' @ [CHR 0x22] @ x @ [CHR 0x22] @ ''></file>'' @ [CHR 0x0A])
                 full_deps_list)
     @ ''</assembly>''"

text \<open>
  The part of \<^verbatim>\<open>main\<close> after the loop: the closure of the target, the copies, then the
  JSON file and the manifest when their options are given and not empty. \<^verbatim>\<open>sorted(None)\<close>
  raises \<^verbatim>\<open>TypeError\<close>.
\<close>

definition stage_and_report ::
  "os_env \<Rightarrow> cmd_line_args \<Rightarrow> builder_state \<Rightarrow> failure option \<times> effect list" where
  "stage_and_report env args st =
     (let json_dict = \<lparr>binary_deps = binary_deps_map st,
                        binary_locations = binary_name_to_location_map st\<rparr>
      in case get_all_deps_for_binary (binary_key_name env args) json_dict of
           Inl e \<Rightarrow> (Some e, [])
         | Inr None \<Rightarrow> (Some TypeError, [])
         | Inr (Some deps) \<Rightarrow>
             (case copy_loop env (binary_name_to_location_map st) (output_directory args)
                     (sorted_list_of_set deps) of
                (Some e, copies) \<Rightarrow> (Some e, copies)
              | (None, copies) \<Rightarrow>
                  (None,
                   copies
                   @ (case json args of
                        None \<Rightarrow> []
                      | Some path \<Rightarrow> if path = [] then [] else [JsonDump path (json_dump json_dict)])
                   @ (case manifest args of
                        None \<Rightarrow> []
                      | Some path \<Rightarrow>
                          if path = [] then []
                          else [WriteManifest path
                                  (manifest_text (path_basename env (target_binary args))
                                     (sorted_list_of_set deps))]))))"

text \<open>
  \<^verbatim>\<open>main\<close> from the parsed command line on: the three checks of the arguments, the copy of
  a \<^verbatim>\<open>.ofx\<close> plugin on \<^verbatim>\<open>win32\<close>, the loop, and the staging. The result is the failure that
  ended the run (\<open>None\<close> for exit status 0) and what was written, in order.
\<close>

definition main ::
  "os_env \<Rightarrow> cmd_line_args \<Rightarrow> schedule \<Rightarrow> (failure option \<times> effect list) option" where
  "main env args sched =
     (if \<not> path_exists env (target_binary args) then
        Some (Some (SystemExit 1 (target_binary args @ '' does not exist.'' @ [CHR 0x0A])), [])
      else if \<not> path_isfile env (target_binary args) then
        Some (Some (SystemExit 1 (target_binary args @ '' is not a file.'' @ [CHR 0x0A])), [])
      else if \<not> path_isdir env (output_directory args) then
        Some (Some (SystemExit 1 []), [])
      else
        (case run_loop env sched (initial_state env args) of
           None \<Rightarrow> None
         | Some (Inl (e, dirs)) \<Rightarrow> Some (Some e, preparation env args)
         | Some (Inr st) \<Rightarrow>
             (case stage_and_report env args st of
                (r, effs) \<Rightarrow> Some (r, preparation env args @ effs))))"

text \<open>The two properties of the graph that the loop keeps at its head.\<close>

definition graph_invariant :: "builder_state \<Rightarrow> bool" where
  "graph_invariant st =
     ((\<forall>k ds d. fmlookup (binary_deps_map st) k = Some ds \<and> d \<in> set ds \<longrightarrow>
          d \<in> fmdom' (binary_deps_map st) \<or> d \<in> deps_remaining st)
      \<and> fmdom' (binary_deps_map st) \<subseteq> fmdom' (binary_name_to_location_map st))"

text \<open>What the proofs about the loop carry along with them.\<close>

definition builder_invariant :: "builder_state \<Rightarrow> bool" where
  "builder_invariant st =
     (graph_invariant st
      \<and> deps_visited st = fmdom' (binary_deps_map st)
      \<and> deps_remaining st \<subseteq> fmdom' (binary_name_to_location_map st)
      \<and> deps_remaining st \<inter> deps_visited st = {})"

text \<open>
  The run with the checked arguments \<open>args\<close> whose schedule starts with \<open>pre\<close> is at the head of
  the loop, \<open>x\<close> is pending and recorded at \<open>location\<close>, and \<open>dirs\<close> is the search list with which
  the lister is called for it.
\<close>

definition run_lists ::
  "os_env \<Rightarrow> cmd_line_args \<Rightarrow> schedule \<Rightarrow> string \<Rightarrow> string \<Rightarrow> string list \<Rightarrow> bool" where
  "run_lists env args pre x location dirs =
     (path_exists env (target_binary args) \<and> path_isfile env (target_binary args)
      \<and> path_isdir env (output_directory args)
      \<and> (case loop_head_after env pre (initial_state env args) of
            None \<Rightarrow> False
          | Some st \<Rightarrow>
              x \<in> deps_remaining st
              \<and> fmlookup (binary_name_to_location_map st) x = Some location
              \<and> dirs = search_directories st @ [path_dirname env location]))"


subsection \<open>Example runs\<close>

definition conflict_env :: os_env where
  "conflict_env =
     posix_env [''/r/app'', ''/d/libA.so'', ''/d/app'']
       [(''/r/app'', ldd_text [''libA.so => /d/libA.so (0x1)'']),
        (''/d/libA.so'', ldd_text [''app => /d/app (0x2)''])]"

definition conflict_args :: cmd_line_args where
  "conflict_args =
     \<lparr>json = Some ''/out/deps.json'', manifest = Some ''/out/app.manifest'',
      target_binary = ''/r/app'', output_directory = ''/out'', search_directories_arg = [''/d'']\<rparr>"

definition conflict_state :: builder_state where
  "conflict_state =
     \<lparr>search_directories = [''/d''],
      binary_name_to_location_map = fmupd ''libA.so'' ''/d/libA.so'' (fmupd ''app'' ''/r/app'' fmempty),
      binary_deps_map = fmupd ''app'' [''libA.so''] fmempty,
      deps_remaining = {''libA.so''},
      deps_visited = {''app''}\<rparr>"

definition missing_env :: os_env where
  "missing_env =
     posix_env [''/b/app''] [(''/b/app'', ldd_text [''libX.so => not found''])]"

definition slash_env :: os_env where
  "slash_env =
     posix_env [''/b/app'', ''/b/sub/libx.so'']
       [(''/b/app'', ldd_text [''sub/libx.so => /b/sub/libx.so (0x1)'']),
        (''/b/sub/libx.so'', ldd_text [''sub/libx.so => /b/sub/libx.so (0x2)''])]"

definition slash_args :: cmd_line_args where
  "slash_args =
     \<lparr>json = None, manifest = None, target_binary = ''/b/app'', output_directory = ''/out'',
      search_directories_arg = [''/b'']\<rparr>"

definition slash_schedule :: schedule where
  "slash_schedule =
     [(''app'', [(''sub/libx.so'', ''/b/sub/libx.so'')]),
      (''sub/libx.so'', [(''sub/libx.so'', ''/b/sub/libx.so'')])]"

definition missing_args :: cmd_line_args where
  "missing_args =
     \<lparr>json = Some ''/out/deps.json'', manifest = None, target_binary = ''/b/app'',
      output_directory = ''/out'', search_directories_arg = []\<rparr>"

definition garbled_env :: os_env where
  "garbled_env =
     posix_env [''/b/app''] [(''/b/app'', ldd_text [''statically linked'', ''not a dynamic executable''])]"

definition skipping_env :: os_env where
  "skipping_env =
     posix_env [''/b/app'', ''/b/libc.so.6'', ''/b/libA.so'']
       [(''/b/app'', ldd_text [''app => /b/app (0x1)'', ''libc.so.6 => /lib/libc.so.6 (0x2)'',
                               ''gdi32.dll => /c/Windows/System32/gdi32.dll (0x3)'',
                               ''libA.so => /usr/lib/libA.so (0x4)''])]"

definition slash_final :: builder_state where
  "slash_final =
     \<lparr>search_directories = [''/b''],
      binary_name_to_location_map =
        fmupd ''sub/libx.so'' ''/b/sub/libx.so'' (fmupd ''app'' ''/b/app'' fmempty),
      binary_deps_map = fmupd ''sub/libx.so'' [''sub/libx.so''] (fmupd ''app'' [''sub/libx.so''] fmempty),
      deps_remaining = {},
      deps_visited = {''app'', ''sub/libx.so''}\<rparr>"

definition cyclic_env :: os_env where
  "cyclic_env =
     posix_env [''/b/libA.so'', ''/b/libB.so'']
       [(''/b/libA.so'', ldd_text [''libB.so => /b/libB.so (0x1)'']),
        (''/b/libB.so'', ldd_text [''libA.so => /b/libA.so (0x2)''])]"

definition cyclic_args :: cmd_line_args where
  "cyclic_args =
     \<lparr>json = None, manifest = None, target_binary = ''/b/libA.so'', output_directory = ''/out'',
      search_directories_arg = []\<rparr>"

definition cyclic_schedule :: schedule where
  "cyclic_schedule =
     [(''libA.so'', [(''libB.so'', ''/b/libB.so'')]), (''libB.so'', [(''libA.so'', ''/b/libA.so'')])]"

definition cyclic_final :: builder_state where
  "cyclic_final =
     \<lparr>search_directories = [],
      binary_name_to_location_map = binary_locations cyclic_graph,
      binary_deps_map = binary_deps cyclic_graph,
      deps_remaining = {},
      deps_visited = {''libA.so'', ''libB.so''}\<rparr>"









section \<open>Properties of the transitive closure\<close>

lemma set_last_butlast: "dl \<noteq> [] \<Longrightarrow> set dl = insert (last dl) (set (butlast dl))"
  by (cases dl rule: rev_cases) auto

lemma closure_loop_mono:
  "closure_loop deps dl ret = Inr S \<Longrightarrow> ret \<subseteq> S \<and> set dl \<subseteq> S"
proof (induction deps dl ret rule: closure_loop.induct)
  case (1 deps dl ret)
  show ?case
  proof (cases "dl = []")
    case True
    with "1.prems" show ?thesis by (simp add: closure_loop.simps)
  next
    case ne: False
    then have dl: "set dl = insert (last dl) (set (butlast dl))"
      by (rule set_last_butlast)
    show ?thesis
    proof (cases "last dl \<in> ret")
      case True
      with ne "1.prems" have "closure_loop deps (butlast dl) ret = Inr S"
        by (simp add: closure_loop.simps [of deps dl])
      with "1.IH"(2) ne True have "ret \<subseteq> S \<and> set (butlast dl) \<subseteq> S" by simp
      with True dl show ?thesis by auto
    next
      case False
      with ne "1.prems" obtain ds where ds: "fmlookup deps (last dl) = Some ds"
        and r: "closure_loop deps (butlast dl @ ds) (insert (last dl) ret) = Inr S"
        by (auto simp: closure_loop.simps [of deps dl] split: option.splits)
      with "1.IH"(1) ne False have "insert (last dl) ret \<subseteq> S \<and> set (butlast dl @ ds) \<subseteq> S" by simp
      with dl show ?thesis by auto
    qed
  qed
qed

lemma closure_loop_keys:
  "closure_loop deps dl ret = Inr S \<Longrightarrow> y \<in> S \<Longrightarrow> y \<notin> ret \<Longrightarrow>
     \<exists>ds. fmlookup deps y = Some ds \<and> set ds \<subseteq> S"
proof (induction deps dl ret rule: closure_loop.induct)
  case (1 deps dl ret)
  show ?case
  proof (cases "dl = []")
    case True
    with "1.prems" show ?thesis by (simp add: closure_loop.simps)
  next
    case ne: False
    show ?thesis
    proof (cases "last dl \<in> ret")
      case True
      with ne "1.prems" have "closure_loop deps (butlast dl) ret = Inr S"
        by (simp add: closure_loop.simps [of deps dl])
      with "1.IH"(2) ne True "1.prems" show ?thesis by simp
    next
      case False
      with ne "1.prems" obtain ds where ds: "fmlookup deps (last dl) = Some ds"
        and r: "closure_loop deps (butlast dl @ ds) (insert (last dl) ret) = Inr S"
        by (auto simp: closure_loop.simps [of deps dl] split: option.splits)
      show ?thesis
      proof (cases "y = last dl")
        case True
        from closure_loop_mono [OF r] have "set ds \<subseteq> S" by simp
        with ds True show ?thesis by simp
      next
        case False
        with "1.prems" have "y \<notin> insert (last dl) ret" by simp
        with "1.IH"(1) [OF ne \<open>last dl \<notin> ret\<close> ds r "1.prems"(2)] show ?thesis by simp
      qed
    qed
  qed
qed

lemma closure_loop_sound:
  "closure_loop deps dl ret = Inr S \<Longrightarrow> y \<in> S \<Longrightarrow>
     y \<in> ret \<or> (\<exists>x\<in>set dl. (x, y) \<in> (edges deps)\<^sup>*)"
proof (induction deps dl ret rule: closure_loop.induct)
  case (1 deps dl ret)
  show ?case
  proof (cases "dl = []")
    case True
    with "1.prems" show ?thesis by (simp add: closure_loop.simps)
  next
    case ne: False
    then have dl: "set dl = insert (last dl) (set (butlast dl))"
      by (rule set_last_butlast)
    show ?thesis
    proof (cases "last dl \<in> ret")
      case True
      with ne "1.prems" have "closure_loop deps (butlast dl) ret = Inr S"
        by (simp add: closure_loop.simps [of deps dl])
      with "1.IH"(2) ne True "1.prems" have "y \<in> ret \<or> (\<exists>x\<in>set (butlast dl). (x, y) \<in> (edges deps)\<^sup>*)"
        by simp
      with dl show ?thesis by auto
    next
      case False
      with ne "1.prems" obtain ds where ds: "fmlookup deps (last dl) = Some ds"
        and r: "closure_loop deps (butlast dl @ ds) (insert (last dl) ret) = Inr S"
        by (auto simp: closure_loop.simps [of deps dl] split: option.splits)
      from "1.IH"(1) [OF ne False ds r "1.prems"(2)]
      consider "y = last dl" | "y \<in> ret" | x where "x \<in> set (butlast dl)" "(x, y) \<in> (edges deps)\<^sup>*"
        | x where "x \<in> set ds" "(x, y) \<in> (edges deps)\<^sup>*"
        by auto
      then show ?thesis
      proof cases
        case 1
        with dl show ?thesis by auto
      next
        case 2
        then show ?thesis by simp
      next
        case 3
        with dl show ?thesis by auto
      next
        case 4
        from ds 4(1) have "(last dl, x) \<in> edges deps" by (auto simp: edges_def)
        then have "(last dl, y) \<in> (edges deps)\<^sup>*" using 4(2) by (rule converse_rtrancl_into_rtrancl)
        with dl show ?thesis by auto
      qed
    qed
  qed
qed

lemma closure_loop_error:
  "closure_loop deps dl ret = Inl e \<Longrightarrow>
     \<exists>k. e = KeyError k \<and> fmlookup deps k = None \<and> (\<exists>x\<in>set dl. (x, k) \<in> (edges deps)\<^sup>*)"
proof (induction deps dl ret rule: closure_loop.induct)
  case (1 deps dl ret)
  show ?case
  proof (cases "dl = []")
    case True
    with "1.prems" show ?thesis by (simp add: closure_loop.simps)
  next
    case ne: False
    then have dl: "set dl = insert (last dl) (set (butlast dl))"
      by (rule set_last_butlast)
    show ?thesis
    proof (cases "last dl \<in> ret")
      case True
      with ne "1.prems" have "closure_loop deps (butlast dl) ret = Inl e"
        by (simp add: closure_loop.simps [of deps dl])
      with "1.IH"(2) ne True obtain k where "e = KeyError k" "fmlookup deps k = None"
        "\<exists>x\<in>set (butlast dl). (x, k) \<in> (edges deps)\<^sup>*" by auto
      with dl show ?thesis by auto
    next
      case False
      show ?thesis
      proof (cases "fmlookup deps (last dl)")
        case None
        with ne False "1.prems" have "e = KeyError (last dl)"
          by (simp add: closure_loop.simps [of deps dl])
        with None dl show ?thesis by auto
      next
        case (Some ds)
        with ne False "1.prems" have r: "closure_loop deps (butlast dl @ ds) (insert (last dl) ret) = Inl e"
          by (simp add: closure_loop.simps [of deps dl])
        from "1.IH"(1) [OF ne False Some r] obtain k x where k: "e = KeyError k" "fmlookup deps k = None"
          and x: "x \<in> set (butlast dl) \<or> x \<in> set ds" "(x, k) \<in> (edges deps)\<^sup>*" by auto
        from x(1) show ?thesis
        proof
          assume "x \<in> set (butlast dl)"
          with dl k x(2) show ?thesis by auto
        next
          assume "x \<in> set ds"
          with Some have "(last dl, x) \<in> edges deps" by (auto simp: edges_def)
          then have "(last dl, k) \<in> (edges deps)\<^sup>*" using x(2) by (rule converse_rtrancl_into_rtrancl)
          with dl k show ?thesis by auto
        qed
      qed
    qed
  qed
qed

lemma closure_loop_total_exact:
  assumes root: "fmlookup deps root = Some ds"
    and res: "closure_loop deps ds {} = Inr S"
  shows "S = reachable deps root"
proof (rule set_eqI)
  fix y
  show "y \<in> S \<longleftrightarrow> y \<in> reachable deps root"
  proof
    assume "y \<in> S"
    with closure_loop_sound [OF res] obtain x where x: "x \<in> set ds" "(x, y) \<in> (edges deps)\<^sup>*"
      by auto
    from root x(1) have "(root, x) \<in> edges deps" by (auto simp: edges_def)
    then have "(root, y) \<in> (edges deps)\<^sup>+" using x(2) by (rule rtrancl_into_trancl2)
    then show "y \<in> reachable deps root" by (simp add: reachable_def)
  next
    assume "y \<in> reachable deps root"
    then have "(root, y) \<in> (edges deps)\<^sup>+" by (simp add: reachable_def)
    then show "y \<in> S"
    proof (induction rule: trancl_induct)
      case (base y)
      with root have "y \<in> set ds" by (auto simp: edges_def)
      with closure_loop_mono [OF res] show ?case by auto
    next
      case (step y z)
      from closure_loop_keys [OF res step.IH] obtain ds' where
        "fmlookup deps y = Some ds'" "set ds' \<subseteq> S" by auto
      with step.hyps(2) show ?case by (auto simp: edges_def)
    qed
  qed
qed

lemma get_all_deps_exact:
  assumes "get_all_deps_for_binary root jd = Inr (Some S)"
  shows "S = reachable (binary_deps jd) root"
proof -
  from assms obtain ds where "fmlookup (binary_deps jd) root = Some ds"
    "closure_loop (binary_deps jd) ds {} = Inr S"
    by (auto simp: get_all_deps_for_binary_def split: option.splits sum.splits)
  then show ?thesis by (rule closure_loop_total_exact)
qed

lemma get_all_deps_keys:
  assumes "get_all_deps_for_binary root jd = Inr (Some S)" and "y \<in> S"
  shows "fmlookup (binary_deps jd) y \<noteq> None"
proof -
  from assms(1) obtain ds where "closure_loop (binary_deps jd) ds {} = Inr S"
    by (auto simp: get_all_deps_for_binary_def split: option.splits sum.splits)
  from closure_loop_keys [OF this assms(2)] show ?thesis by auto
qed

lemma get_all_deps_error:
  assumes "get_all_deps_for_binary root jd = Inl e"
  shows "\<exists>k. e = KeyError k \<and> fmlookup (binary_deps jd) k = None
            \<and> k \<in> reachable (binary_deps jd) root"
proof -
  from assms obtain ds where root: "fmlookup (binary_deps jd) root = Some ds"
    and res: "closure_loop (binary_deps jd) ds {} = Inl e"
    by (auto simp: get_all_deps_for_binary_def split: option.splits sum.splits)
  from closure_loop_error [OF res] obtain k x where k: "e = KeyError k"
    "fmlookup (binary_deps jd) k = None" and x: "x \<in> set ds" "(x, k) \<in> (edges (binary_deps jd))\<^sup>*"
    by auto
  from root x(1) have "(root, x) \<in> edges (binary_deps jd)" by (auto simp: edges_def)
  then have "(root, k) \<in> (edges (binary_deps jd))\<^sup>+" using x(2) by (rule rtrancl_into_trancl2)
  with k show ?thesis by (simp add: reachable_def)
qed

lemma get_all_deps_absent:
  "fmlookup (binary_deps jd) root = None \<Longrightarrow> get_all_deps_for_binary root jd = Inr None"
  by (simp add: get_all_deps_for_binary_def)

lemma get_all_deps_closed:
  assumes root: "fmlookup (binary_deps jd) root \<noteq> None"
    and closed: "\<forall>k\<in>reachable (binary_deps jd) root. fmlookup (binary_deps jd) k \<noteq> None"
  shows "get_all_deps_for_binary root jd = Inr (Some (reachable (binary_deps jd) root))"
proof (cases "get_all_deps_for_binary root jd")
  case (Inl e)
  from get_all_deps_error [OF Inl] closed show ?thesis by auto
next
  case (Inr r)
  with root obtain S where "r = Some S"
    by (auto simp: get_all_deps_for_binary_def split: option.splits sum.splits)
  with Inr get_all_deps_exact [of root jd S] show ?thesis by simp
qed


lemma example_graph_closure:
  "get_all_deps_for_binary ''app'' example_graph = Inr (Some {''libA.so'', ''libB.so'', ''libC.so''})"
  unfolding example_graph_def
  by (simp add: get_all_deps_for_binary_def closure_loop.simps insert_commute)

section \<open>Properties of the parser and the lister\<close>

lemma substring_in_map:
  "substring_in s t \<Longrightarrow> substring_in (map f s) (map f t)"
proof (induction t)
  case Nil
  then show ?case by simp
next
  case (Cons c cs)
  from Cons.prems have "take (length s) (c # cs) = s \<or> substring_in s cs" by simp
  then show ?case
  proof
    assume "take (length s) (c # cs) = s"
    then have "map f (take (length s) (c # cs)) = map f s" by simp
    then have "take (length (map f s)) (map f (c # cs)) = map f s" by (simp only: take_map length_map)
    then show ?thesis by simp
  next
    assume "substring_in s cs"
    with Cons.IH show ?thesis by simp
  qed
qed

lemma lower_windows_system: "lower ''/c/windows/system'' = ''/c/windows/system''"
  by code_simp

lemma lower_windows_winsxs: "lower ''/c/windows/winsxs/'' = ''/c/windows/winsxs/''"
  by code_simp

lemma substring_in_lower_system:
  "substring_in ''/c/windows/system'' t \<Longrightarrow> substring_in ''/c/windows/system'' (lower t)"
  using substring_in_map [of "''/c/windows/system''" t lower_char] lower_windows_system
  by (simp add: lower_def)

lemma substring_in_lower_winsxs:
  "substring_in ''/c/windows/winsxs/'' t \<Longrightarrow> substring_in ''/c/windows/winsxs/'' (lower t)"
  using substring_in_map [of "''/c/windows/winsxs/''" t lower_char] lower_windows_winsxs
  by (simp add: lower_def)

lemma search_dep_location_Some:
  "search_dep_location env dep_name dirs = Some p \<Longrightarrow>
     \<exists>d\<in>set dirs. p = path_join env d dep_name \<and> path_exists env p \<and> path_isfile env p"
  by (induction dirs) (auto split: if_splits)

lemma search_dep_location_None:
  "search_dep_location env dep_name dirs = None \<longleftrightarrow>
     (\<forall>d\<in>set dirs. \<not> (path_exists env (path_join env d dep_name)
                          \<and> path_isfile env (path_join env d dep_name)))"
  by (induction dirs) auto

lemma process_line_unrecognized:
  "ldd_regex_match (strip raw_line) = None \<Longrightarrow> \<not> benign_line (strip raw_line) \<Longrightarrow>
     process_line env binary_path dirs raw_line ret
       = Inl (SystemExit 1 (''Unexpected line in ldd output: '' @ strip raw_line))"
  by (simp add: process_line_def)

lemma process_line_benign:
  "ldd_regex_match (strip raw_line) = None \<Longrightarrow> benign_line (strip raw_line) \<Longrightarrow>
     process_line env binary_path dirs raw_line ret = Inr ret"
  by (simp add: process_line_def)

lemma process_line_skipped:
  "ldd_regex_match (strip raw_line) = Some (dep_name, loc) \<Longrightarrow>
     skipped env (path_basename env binary_path) dep_name loc \<Longrightarrow>
     process_line env binary_path dirs raw_line ret = Inr ret"
  by (simp add: process_line_def)

lemma process_line_unresolved:
  assumes "ldd_regex_match (strip raw_line) = Some (dep_name, loc)"
    and "\<not> skipped env (path_basename env binary_path) dep_name loc"
    and "search_dep_location env dep_name dirs = None \<or> search_dep_location env dep_name dirs = Some []"
  shows "process_line env binary_path dirs raw_line ret =
     (if loc = ''not found'' then
        Inl (SystemExit 1 (binary_path @ '' depends on '' @ dep_name
               @ '' but ldd could not find its location.''))
      else
        Inl (SystemExit 1 (''Could not find '' @ dep_name @ '' in search path, but ldd found it at ''
               @ loc @ ''. Please update search paths and run again.'' @ [CHR 0x0A])))"
  using assms by (auto simp: process_line_def)

lemma process_line_Inr:
  assumes "process_line env binary_path dirs raw_line ret = Inr ret'"
  shows "ret' = ret \<or>
     (\<exists>dep_name loc p fixed. ret' = insert (dep_name, fixed) ret
        \<and> ldd_regex_match (strip raw_line) = Some (dep_name, loc)
        \<and> \<not> skipped env (path_basename env binary_path) dep_name loc
        \<and> search_dep_location env dep_name dirs = Some p \<and> p \<noteq> []
        \<and> fix_location env p = Inr fixed)"
  using assms
  by (auto simp: process_line_def split: option.splits if_splits list.splits sum.splits)

lemma process_line_Inr_recognized:
  assumes "process_line env binary_path dirs raw_line ret = Inr ret'"
  shows "ldd_regex_match (strip raw_line) \<noteq> None \<or> benign_line (strip raw_line)"
  using assms by (auto simp: process_line_def split: option.splits if_splits)

lemma fix_location_Inl: "fix_location env p = Inl e \<Longrightarrow> e = IndexError"
  by (auto simp: fix_location_def split: if_splits list.splits)

lemma process_line_status:
  "process_line env binary_path dirs raw_line ret = Inl e \<Longrightarrow> exit_status e = 1"
  by (auto simp: process_line_def split: option.splits if_splits list.splits sum.splits
      dest!: fix_location_Inl)

lemma ldd_loop_status:
  "ldd_loop env binary_path dirs raw_lines ret = Inl e \<Longrightarrow> exit_status e = 1"
  by (induction raw_lines arbitrary: ret) (auto split: sum.splits dest: process_line_status)

lemma ldd_loop_recognized:
  "ldd_loop env binary_path dirs raw_lines ret = Inr ret' \<Longrightarrow> raw_line \<in> set raw_lines \<Longrightarrow>
     ldd_regex_match (strip raw_line) \<noteq> None \<or> benign_line (strip raw_line)"
proof (induction raw_lines arbitrary: ret)
  case Nil
  then show ?case by simp
next
  case (Cons l ls)
  from Cons.prems(1) obtain r where r: "process_line env binary_path dirs l ret = Inr r"
    and rest: "ldd_loop env binary_path dirs ls r = Inr ret'"
    by (auto split: sum.splits)
  from Cons.prems(2) have "raw_line = l \<or> raw_line \<in> set ls" by simp
  then show ?case
  proof
    assume "raw_line = l"
    with process_line_Inr_recognized [OF r] show ?thesis by simp
  next
    assume "raw_line \<in> set ls"
    with Cons.IH [OF rest] show ?thesis by simp
  qed
qed

lemma ldd_loop_origin:
  "ldd_loop env binary_path dirs raw_lines ret = Inr ret' \<Longrightarrow> entry \<in> ret' \<Longrightarrow>
     entry \<in> ret \<or>
     (\<exists>raw_line\<in>set raw_lines. \<exists>loc p.
        ldd_regex_match (strip raw_line) = Some (fst entry, loc)
        \<and> \<not> skipped env (path_basename env binary_path) (fst entry) loc
        \<and> search_dep_location env (fst entry) dirs = Some p \<and> p \<noteq> []
        \<and> fix_location env p = Inr (snd entry))"
proof (induction raw_lines arbitrary: ret)
  case Nil
  then show ?case by simp
next
  case (Cons l ls)
  from Cons.prems(1) obtain r where r: "process_line env binary_path dirs l ret = Inr r"
    and rest: "ldd_loop env binary_path dirs ls r = Inr ret'"
    by (auto split: sum.splits)
  from Cons.IH [OF rest Cons.prems(2)] show ?case
  proof
    assume "entry \<in> r"
    with process_line_Inr [OF r] show ?thesis by auto
  next
    assume "\<exists>raw_line\<in>set ls. \<exists>loc p.
        ldd_regex_match (strip raw_line) = Some (fst entry, loc)
        \<and> \<not> skipped env (path_basename env binary_path) (fst entry) loc
        \<and> search_dep_location env (fst entry) dirs = Some p \<and> p \<noteq> []
        \<and> fix_location env p = Inr (snd entry)"
    then show ?thesis by auto
  qed
qed

lemma get_deps_origin:
  assumes "get_deps_for_binary env binary_path dirs = Inr ret" and "(dep_name, location) \<in> ret"
  shows "\<exists>raw_line\<in>set (readlines (ldd_stdout env binary_path)). \<exists>loc p.
        ldd_regex_match (strip raw_line) = Some (dep_name, loc)
        \<and> \<not> skipped env (path_basename env binary_path) dep_name loc
        \<and> search_dep_location env dep_name dirs = Some p \<and> p \<noteq> []
        \<and> fix_location env p = Inr location"
  using ldd_loop_origin [OF assms(1) [unfolded get_deps_for_binary_def] assms(2)] by simp

lemma get_deps_status:
  "get_deps_for_binary env binary_path dirs = Inl e \<Longrightarrow> exit_status e = 1"
  unfolding get_deps_for_binary_def by (rule ldd_loop_status)

lemma get_deps_functional:
  assumes "get_deps_for_binary env binary_path dirs = Inr ret"
    and "(dep_name, l1) \<in> ret" and "(dep_name, l2) \<in> ret"
  shows "l1 = l2"
  using get_deps_origin [OF assms(1,2)] get_deps_origin [OF assms(1,3)] by auto

lemma ldd_loop_finite:
  "ldd_loop env binary_path dirs raw_lines ret = Inr ret' \<Longrightarrow> finite ret \<Longrightarrow> finite ret'"
proof (induction raw_lines arbitrary: ret)
  case Nil
  then show ?case by simp
next
  case (Cons l ls)
  from Cons.prems(1) obtain r where r: "process_line env binary_path dirs l ret = Inr r"
    and rest: "ldd_loop env binary_path dirs ls r = Inr ret'"
    by (auto split: sum.splits)
  from process_line_Inr [OF r] Cons.prems(2) have "finite r" by auto
  with Cons.IH [OF rest] show ?case .
qed

lemma get_deps_finite: "get_deps_for_binary env binary_path dirs = Inr ret \<Longrightarrow> finite ret"
  unfolding get_deps_for_binary_def using ldd_loop_finite by blast

section \<open>Properties of the graph builder\<close>

lemma list_dependencies_step_Inr:
  "list_dependencies_step env location dirs = Inr (dep_info_list, dirs') \<longleftrightarrow>
     get_deps_for_binary env location (dirs @ [path_dirname env location]) = Inr dep_info_list
     \<and> dirs' = dirs"
  by (auto simp: list_dependencies_step_def split: sum.splits)

lemma list_dependencies_step_Inl:
  "list_dependencies_step env location dirs = Inl (e, dirs') \<longleftrightarrow>
     get_deps_for_binary env location (dirs @ [path_dirname env location]) = Inl e
     \<and> dirs' = dirs @ [path_dirname env location]"
  by (auto simp: list_dependencies_step_def split: sum.splits)

lemma dep_info_loop_Inr:
  "dep_info_loop env visited order (names, locations, remaining) = Inr (names', locations', remaining')
   \<Longrightarrow> names' = names \<union> fst ` set order
       \<and> fmdom' locations' = fmdom' locations \<union> fst ` set order
       \<and> remaining' = remaining \<union> (fst ` set order - visited)
       \<and> (\<forall>k v. fmlookup locations k = Some v \<longrightarrow> fmlookup locations' k = Some v)"
proof (induction order arbitrary: names locations remaining)
  case Nil
  then show ?case by simp
next
  case (Cons p ps)
  obtain n l where p: "p = (n, l)" by (cases p)
  show ?case
  proof (cases "fmlookup locations n")
    case None
    with Cons.prems p have
      "dep_info_loop env visited ps (insert n names, fmupd n l locations,
          if n \<notin> visited then insert n remaining else remaining)
        = Inr (names', locations', remaining')"
      by simp
    from Cons.IH [OF this] have ih: "names' = insert n names \<union> fst ` set ps"
      "fmdom' locations' = fmdom' (fmupd n l locations) \<union> fst ` set ps"
      "remaining' = (if n \<notin> visited then insert n remaining else remaining) \<union> (fst ` set ps - visited)"
      "\<And>k v. fmlookup (fmupd n l locations) k = Some v \<Longrightarrow> fmlookup locations' k = Some v"
      by blast+
    have keep: "fmlookup locations' k = Some v" if "fmlookup locations k = Some v" for k v
    proof -
      from that None have "k \<noteq> n" by auto
      with that have "fmlookup (fmupd n l locations) k = Some v" by simp
      then show ?thesis by (rule ih(4))
    qed
    from ih(1,2,3) p keep show ?thesis by (auto split: if_splits)
  next
    case (Some known)
    with Cons.prems p have
      "dep_info_loop env visited ps (insert n names, locations,
          if n \<notin> visited then insert n remaining else remaining)
        = Inr (names', locations', remaining')"
      by (auto split: option.splits if_splits)
    from Cons.IH [OF this] Some p show ?thesis by (auto split: if_splits simp: fmdom'I)
  qed
qed

lemma dep_info_loop_status:
  "dep_info_loop env visited order acc = Inl e \<Longrightarrow> exit_status e = 1"
proof (induction order arbitrary: acc)
  case Nil
  then show ?case by simp
next
  case (Cons p ps)
  obtain n l where p: "p = (n, l)" by (cases p)
  obtain names locations remaining where acc: "acc = (names, locations, remaining)"
    by (cases acc)
  from Cons.prems p acc Cons.IH show ?case
    by (auto split: option.splits if_splits)
qed

lemma dep_info_loop_conflict:
  assumes "(dep_name, dep_location) \<in> set order"
    and "fmlookup locations dep_name = Some known"
    and "path_samefile env known dep_location = Some False"
  shows "\<exists>e. dep_info_loop env visited order (names, locations, remaining) = Inl e"
  using assms
proof (induction order arbitrary: names locations remaining)
  case Nil
  then show ?case by simp
next
  case (Cons p ps)
  obtain n l where p: "p = (n, l)" by (cases p)
  show ?case
  proof (cases "fmlookup locations n")
    case None
    with Cons.prems(1,2) p have in_rest: "(dep_name, dep_location) \<in> set ps" and ne: "n \<noteq> dep_name"
      by auto
    from ne Cons.prems(2) have "fmlookup (fmupd n l locations) dep_name = Some known" by simp
    from Cons.IH [OF in_rest this Cons.prems(3)] None p show ?thesis by simp
  next
    case (Some k)
    show ?thesis
    proof (cases "path_samefile env k l")
      case None
      with Some p show ?thesis by simp
    next
      case same: (Some b)
      show ?thesis
      proof (cases b)
        case False
        with Some same p show ?thesis by simp
      next
        case True
        with Some same Cons.prems p have in_rest: "(dep_name, dep_location) \<in> set ps" by auto
        from Cons.IH [OF in_rest Cons.prems(2,3)] Some same True p show ?thesis by simp
      qed
    qed
  qed
qed

lemma initial_state_invariant: "builder_invariant (initial_state env args)"
  by (simp add: builder_invariant_def graph_invariant_def initial_state_def)

lemma loop_body_invariant:
  assumes inv: "builder_invariant st" and pending: "x \<in> deps_remaining st"
    and body: "loop_body env x order (st\<lparr>deps_remaining := deps_remaining st - {x}\<rparr>) = Some (Inr st')"
  shows "builder_invariant st'"
proof (cases "x \<in> deps_visited st")
  case True
  with body have "st' = st\<lparr>deps_remaining := deps_remaining st - {x}\<rparr>"
    by (simp add: loop_body_def)
  with inv True show ?thesis
    by (auto simp: builder_invariant_def graph_invariant_def)
next
  case False
  from inv have g1: "\<And>k ds d. fmlookup (binary_deps_map st) k = Some ds \<Longrightarrow> d \<in> set ds \<Longrightarrow>
        d \<in> fmdom' (binary_deps_map st) \<or> d \<in> deps_remaining st"
    and g2: "fmdom' (binary_deps_map st) \<subseteq> fmdom' (binary_name_to_location_map st)"
    and vis: "deps_visited st = fmdom' (binary_deps_map st)"
    and rem: "deps_remaining st \<subseteq> fmdom' (binary_name_to_location_map st)"
    and disj: "deps_remaining st \<inter> deps_visited st = {}"
    by (auto simp: builder_invariant_def graph_invariant_def)
  from body False obtain location dep_info_list dirs names locations remaining where
    loc: "fmlookup (binary_name_to_location_map st) x = Some location"
    and ord: "set order = dep_info_list"
    and loop: "dep_info_loop env (insert x (deps_visited st)) order
                 ({}, binary_name_to_location_map st, deps_remaining st - {x})
               = Inr (names, locations, remaining)"
    and st': "st' = \<lparr>search_directories = dirs, binary_name_to_location_map = locations,
                    binary_deps_map = fmupd x (sorted_list_of_set names) (binary_deps_map st),
                    deps_remaining = remaining, deps_visited = insert x (deps_visited st)\<rparr>"
    by (auto simp: loop_body_def split: option.splits sum.splits if_splits prod.splits)
  from dep_info_loop_Inr [OF loop] have names: "names = fst ` set order"
    and dom: "fmdom' locations = fmdom' (binary_name_to_location_map st) \<union> fst ` set order"
    and rem': "remaining = (deps_remaining st - {x}) \<union> (fst ` set order - insert x (deps_visited st))"
    by auto
  from names have fin: "finite names" by simp
  have xdom: "x \<in> fmdom' (binary_name_to_location_map st)" using loc by (simp add: fmdom'I)
  have "graph_invariant st'"
    unfolding graph_invariant_def
  proof (intro conjI allI impI)
    fix k ds d
    assume a: "fmlookup (binary_deps_map st') k = Some ds \<and> d \<in> set ds"
    show "d \<in> fmdom' (binary_deps_map st') \<or> d \<in> deps_remaining st'"
    proof (cases "k = x")
      case True
      from fin have "set (sorted_list_of_set names) = names" by simp
      moreover from True a st' have "ds = sorted_list_of_set names" by simp
      ultimately have "d \<in> names" using a by simp
      with names rem' st' vis show ?thesis by auto
    next
      case False
      with a st' have "fmlookup (binary_deps_map st) k = Some ds" "d \<in> set ds" by auto
      from g1 [OF this] rem' st' show ?thesis by auto
    qed
  next
    show "fmdom' (binary_deps_map st') \<subseteq> fmdom' (binary_name_to_location_map st')"
      using st' dom g2 xdom by auto
  qed
  moreover have "deps_visited st' = fmdom' (binary_deps_map st')" using st' vis by simp
  moreover have "deps_remaining st' \<subseteq> fmdom' (binary_name_to_location_map st')"
    using st' rem' dom rem by auto
  moreover have "deps_remaining st' \<inter> deps_visited st' = {}"
    using st' rem' disj by auto
  ultimately show ?thesis by (simp add: builder_invariant_def)
qed

lemma loop_head_after_invariant:
  "builder_invariant st \<Longrightarrow> loop_head_after env sched st = Some st' \<Longrightarrow> builder_invariant st'"
proof (induction sched arbitrary: st)
  case Nil
  then show ?case by simp
next
  case (Cons p ps)
  obtain x order where p: "p = (x, order)" by (cases p)
  from Cons.prems(2) p obtain st1 where pending: "x \<in> deps_remaining st"
    and body: "loop_body env x order (st\<lparr>deps_remaining := deps_remaining st - {x}\<rparr>) = Some (Inr st1)"
    and rest: "loop_head_after env ps st1 = Some st'"
    by (auto split: if_splits option.splits sum.splits)
  from loop_body_invariant [OF Cons.prems(1) pending body] have "builder_invariant st1" .
  from Cons.IH [OF this rest] show ?case .
qed

lemma run_loop_invariant:
  "builder_invariant st \<Longrightarrow> run_loop env sched st = Some (Inr st') \<Longrightarrow>
     builder_invariant st' \<and> deps_remaining st' = {}"
proof (induction sched arbitrary: st)
  case Nil
  then show ?case by (auto split: if_splits)
next
  case (Cons p ps)
  obtain x order where p: "p = (x, order)" by (cases p)
  show ?case
  proof (cases "deps_remaining st = {}")
    case True
    with Cons.prems p show ?thesis by simp
  next
    case False
    with Cons.prems(2) p obtain st1 where pending: "x \<in> deps_remaining st"
      and body: "loop_body env x order (st\<lparr>deps_remaining := deps_remaining st - {x}\<rparr>) = Some (Inr st1)"
      and rest: "run_loop env ps st1 = Some (Inr st')"
      by (auto split: if_splits option.splits sum.splits)
    from loop_body_invariant [OF Cons.prems(1) pending body] have "builder_invariant st1" .
    from Cons.IH [OF this rest] show ?thesis .
  qed
qed

lemma run_loop_append:
  "loop_head_after env pre st = Some st' \<Longrightarrow> run_loop env (pre @ sched) st = run_loop env sched st'"
proof (induction pre arbitrary: st)
  case Nil
  then show ?case by simp
next
  case (Cons p ps)
  obtain x order where p: "p = (x, order)" by (cases p)
  from Cons.prems p obtain st1 where pending: "x \<in> deps_remaining st"
    and body: "loop_body env x order (st\<lparr>deps_remaining := deps_remaining st - {x}\<rparr>) = Some (Inr st1)"
    and rest: "loop_head_after env ps st1 = Some st'"
    by (auto split: if_splits option.splits sum.splits)
  from pending have "deps_remaining st \<noteq> {}" by auto
  with pending body p Cons.IH [OF rest] show ?case by simp
qed

lemma loop_body_lister_failure:
  assumes "x \<notin> deps_visited st"
    and "fmlookup (binary_name_to_location_map st) x = Some location"
    and "get_deps_for_binary env location (search_directories st @ [path_dirname env location]) = Inl e"
  shows "loop_body env x order st
           = Some (Inl (e, search_directories st @ [path_dirname env location]))"
  using assms by (simp add: loop_body_def list_dependencies_step_def)

lemma loop_body_conflict:
  assumes "x \<notin> deps_visited st"
    and "fmlookup (binary_name_to_location_map st) x = Some location"
    and "get_deps_for_binary env location (search_directories st @ [path_dirname env location])
           = Inr dep_info_list"
    and "set order = dep_info_list" and "distinct order"
    and "(dep_name, dep_location) \<in> dep_info_list"
    and "fmlookup (binary_name_to_location_map st) dep_name = Some known"
    and "path_samefile env known dep_location = Some False"
  shows "\<exists>e. loop_body env x order st = Some (Inl (e, search_directories st)) \<and> exit_status e = 1"
proof -
  from assms(4,6) have "(dep_name, dep_location) \<in> set order" by simp
  from dep_info_loop_conflict [OF this assms(7,8)] obtain e where
    e: "dep_info_loop env (insert x (deps_visited st)) order
          ({}, binary_name_to_location_map st, deps_remaining st) = Inl e"
    by blast
  from dep_info_loop_status [OF e] have "exit_status e = 1" .
  moreover from assms(1-5) e have "loop_body env x order st = Some (Inl (e, search_directories st))"
    by (simp add: loop_body_def list_dependencies_step_def)
  ultimately show ?thesis by blast
qed

lemma loop_body_search_directories:
  "loop_body env x order st = Some (Inr st') \<Longrightarrow> search_directories st' = search_directories st"
  by (auto simp: loop_body_def list_dependencies_step_def
      split: if_splits option.splits sum.splits prod.splits)

lemma loop_head_after_search_directories:
  "loop_head_after env sched st = Some st' \<Longrightarrow> search_directories st' = search_directories st"
proof (induction sched arbitrary: st)
  case Nil
  then show ?case by simp
next
  case (Cons p ps)
  obtain x order where p: "p = (x, order)" by (cases p)
  from Cons.prems p obtain st1 where
    body: "loop_body env x order (st\<lparr>deps_remaining := deps_remaining st - {x}\<rparr>) = Some (Inr st1)"
    and rest: "loop_head_after env ps st1 = Some st'"
    by (auto split: if_splits option.splits sum.splits)
  from loop_body_search_directories [OF body] Cons.IH [OF rest] show ?case by simp
qed

lemma preparation_no_output: "filter is_output (preparation env args) = []"
  by (simp add: preparation_def)

lemma main_loop_failure:
  assumes "path_exists env (target_binary args)" and "path_isfile env (target_binary args)"
    and "path_isdir env (output_directory args)"
    and "loop_head_after env pre (initial_state env args) = Some st"
    and "x \<in> deps_remaining st"
    and "loop_body env x order (st\<lparr>deps_remaining := deps_remaining st - {x}\<rparr>) = Some (Inl (e, dirs))"
  shows "main env args (pre @ (x, order) # post) = Some (Some e, preparation env args)"
proof -
  from assms(5) have "deps_remaining st \<noteq> {}" by auto
  with assms(5,6) have "run_loop env ((x, order) # post) st = Some (Inl (e, dirs))" by simp
  with run_loop_append [OF assms(4)] have
    "run_loop env (pre @ (x, order) # post) (initial_state env args) = Some (Inl (e, dirs))" by simp
  with assms(1-3) show ?thesis by (simp add: main_def)
qed

lemma loop_head_pending_not_visited:
  assumes "loop_head_after env pre (initial_state env args) = Some st" and "x \<in> deps_remaining st"
  shows "x \<notin> deps_visited (st\<lparr>deps_remaining := deps_remaining st - {x}\<rparr>)"
  using loop_head_after_invariant [OF initial_state_invariant assms(1)] assms(2)
  by (auto simp: builder_invariant_def)

lemma ldd_loop_fails:
  assumes "raw_line \<in> set raw_lines"
    and "\<And>ret. \<exists>e. process_line env binary_path dirs raw_line ret = Inl e"
  shows "\<exists>e. ldd_loop env binary_path dirs raw_lines ret = Inl e"
  using assms(1)
proof (induction raw_lines arbitrary: ret)
  case Nil
  then show ?case by simp
next
  case (Cons l ls)
  show ?case
  proof (cases "process_line env binary_path dirs l ret")
    case (Inl e)
    then show ?thesis by simp
  next
    case (Inr r)
    with assms(2) [of ret] Cons.prems have "raw_line \<in> set ls" by auto
    from Cons.IH [OF this, of r] Inr show ?thesis by simp
  qed
qed

lemma get_deps_fails:
  assumes "raw_line \<in> set (readlines (ldd_stdout env binary_path))"
    and "\<And>ret. \<exists>e. process_line env binary_path dirs raw_line ret = Inl e"
  shows "\<exists>e. get_deps_for_binary env binary_path dirs = Inl e \<and> exit_status e = 1"
proof -
  from ldd_loop_fails [OF assms, of "{}"] obtain e where
    "get_deps_for_binary env binary_path dirs = Inl e"
    by (auto simp: get_deps_for_binary_def)
  with get_deps_status [OF this] show ?thesis by blast
qed

lemma lister_failure_ends_run:
  assumes "run_lists env args pre x location dirs"
    and "get_deps_for_binary env location dirs = Inl e"
  shows "main env args (pre @ (x, order) # post) = Some (Some e, preparation env args)"
proof -
  from assms(1) obtain st where v: "path_exists env (target_binary args)"
    "path_isfile env (target_binary args)" "path_isdir env (output_directory args)"
    and head: "loop_head_after env pre (initial_state env args) = Some st"
    and pending: "x \<in> deps_remaining st"
    and loc: "fmlookup (binary_name_to_location_map st) x = Some location"
    and dirs: "dirs = search_directories st @ [path_dirname env location]"
    by (auto simp: run_lists_def split: option.splits)
  let ?st = "st\<lparr>deps_remaining := deps_remaining st - {x}\<rparr>"
  from loop_head_pending_not_visited [OF head pending] have nv: "x \<notin> deps_visited ?st" .
  from loop_body_lister_failure [OF nv, of location env e order] loc assms(2) dirs
  have "loop_body env x order ?st = Some (Inl (e, search_directories ?st @ [path_dirname env location]))"
    by simp
  from main_loop_failure [OF v head pending this] show ?thesis .
qed

lemma get_deps_verified:
  assumes "get_deps_for_binary env binary_path dirs = Inr ret" and "(name, location) \<in> ret"
  shows "\<exists>d\<in>set dirs. path_exists env (path_join env d name) \<and> path_isfile env (path_join env d name)
            \<and> fix_location env (path_join env d name) = Inr location"
proof -
  from get_deps_origin [OF assms] obtain p where p: "search_dep_location env name dirs = Some p"
    and f: "fix_location env p = Inr location" by blast
  from search_dep_location_Some [OF p] f show ?thesis by auto
qed

lemma skipped_when_matched:
  assumes "dep_name = my_name
      \<or> substring_in ''/c/windows/system'' loc \<or> substring_in ''/c/windows/winsxs/'' loc
      \<or> substring_in ''/c/windows/system'' (lower loc) \<or> substring_in ''/c/windows/winsxs/'' (lower loc)
      \<or> (\<exists>lib_name\<in>set (system_libs_to_skip env). substring_in lib_name loc)"
  shows "skipped env my_name dep_name loc"
proof -
  have "list_ex (\<lambda>lib_name. substring_in lib_name loc) (system_libs_to_skip env)
        \<and> length (system_libs_to_skip env) > 0"
    if "\<exists>lib_name\<in>set (system_libs_to_skip env). substring_in lib_name loc"
    using that by (auto simp: list_ex_iff)
  with assms substring_in_lower_system [of loc] substring_in_lower_winsxs [of loc]
  show ?thesis unfolding skipped_def by blast
qed

lemma loop_body_records:
  assumes "x \<notin> deps_visited st" and "loop_body env x order st = Some (Inr st')"
  shows "\<exists>location dep_info_list.
      fmlookup (binary_name_to_location_map st) x = Some location
      \<and> get_deps_for_binary env location (search_directories st @ [path_dirname env location])
          = Inr dep_info_list
      \<and> binary_deps_map st' = fmupd x (sorted_list_of_set (fst ` dep_info_list)) (binary_deps_map st)
      \<and> fmdom' (binary_name_to_location_map st')
          = fmdom' (binary_name_to_location_map st) \<union> fst ` dep_info_list"
proof -
  from assms obtain location dep_info_list dirs names locations remaining where
    loc: "fmlookup (binary_name_to_location_map st) x = Some location"
    and step: "list_dependencies_step env location (search_directories st) = Inr (dep_info_list, dirs)"
    and ord: "set order = dep_info_list"
    and loop: "dep_info_loop env (insert x (deps_visited st)) order
                 ({}, binary_name_to_location_map st, deps_remaining st)
               = Inr (names, locations, remaining)"
    and st': "st' = \<lparr>search_directories = dirs, binary_name_to_location_map = locations,
                    binary_deps_map = fmupd x (sorted_list_of_set names) (binary_deps_map st),
                    deps_remaining = remaining, deps_visited = insert x (deps_visited st)\<rparr>"
    by (auto simp: loop_body_def split: option.splits sum.splits if_splits prod.splits)
  from dep_info_loop_Inr [OF loop] ord have "names = fst ` dep_info_list"
    and "fmdom' locations = fmdom' (binary_name_to_location_map st) \<union> fst ` dep_info_list"
    by auto
  with loc step st' show ?thesis by (simp add: list_dependencies_step_Inr)
qed










section \<open>Properties of the JSON document\<close>

lemma those_map_Some: "those (map (\<lambda>x. Some (f x)) xs) = Some (map f xs)"
  by (induction xs) simp_all

lemma map_of_rev_distinct: "distinct (map fst xs) \<Longrightarrow> map_of (rev xs) = map_of xs"
proof (induction xs)
  case Nil
  then show ?case by simp
next
  case (Cons x xs)
  obtain k v where x: "x = (k, v)" by (cases x)
  from Cons.prems x have "k \<notin> fst ` set xs" by simp
  then have none: "map_of xs k = None" by (simp add: map_of_eq_None_iff)
  from Cons have ih: "map_of (rev xs) = map_of xs" by simp
  show ?case
    using none by (auto simp: x ih map_add_def fun_eq_iff split: option.splits)
qed

lemma sorted_list_of_fset_distinct: "distinct (sorted_list_of_fset S)"
  by (simp add: sorted_list_of_fset.rep_eq)

lemma sorted_list_of_fmap_distinct: "distinct (map fst (sorted_list_of_fmap m))"
  by (simp add: sorted_list_of_fmap_def comp_def sorted_list_of_fset_distinct)

lemma fmap_of_sorted_list: "fmap_of_list (rev (sorted_list_of_fmap m)) = m"
proof (rule fmap_ext)
  fix k
  show "fmlookup (fmap_of_list (rev (sorted_list_of_fmap m))) k = fmlookup m k"
    by (simp add: fmlookup_of_list map_of_rev_distinct [OF sorted_list_of_fmap_distinct])
qed

lemma zip_fst_snd: "zip (map fst xs) (map snd xs) = xs"
  by (induction xs) simp_all

lemma json_object_encoded:
  assumes "\<And>a. read (encode a) = Some a"
  shows "json_object read (JObject (map (\<lambda>(k, a). (k, encode a)) xs)) = Some (fmap_of_list (rev xs))"
proof -
  have 1: "map (\<lambda>(k, v). read v) (map (\<lambda>(k, a). (k, encode a)) xs) = map (\<lambda>x. Some (snd x)) xs"
    by (induction xs) (auto simp: assms)
  have 2: "map fst (map (\<lambda>(k, a). (k, encode a)) xs) = map fst xs"
    by (induction xs) auto
  show ?thesis
    by (simp only: json_object.simps 1 2 those_map_Some option.map zip_fst_snd)
qed

lemma json_object_of_read:
  assumes "\<And>a. read (encode a) = Some a"
  shows "json_object read (json_object_of encode m) = Some m"
  unfolding json_object_of_def
  by (simp only: json_object_encoded [of read encode, OF assms] fmap_of_sorted_list)

lemma json_string_list_array: "json_string_list (json_array_of ds) = Some ds"
  unfolding json_array_of_def by (induction ds) simp_all

lemma json_round_trip: "json_load (json_dump jd) = Some jd"
proof -
  have d: "json_object json_string_list (json_object_of json_array_of (binary_deps jd))
      = Some (binary_deps jd)"
    by (rule json_object_of_read) (rule json_string_list_array)
  have l: "json_object json_string (json_object_of JString (binary_locations jd))
      = Some (binary_locations jd)"
    by (rule json_object_of_read) simp
  show ?thesis by (simp add: json_dump_def d l)
qed

section \<open>Claims about the transitive closure\<close>

text \<open>
  C3, as stated, fails: \<^verbatim>\<open>libA.so\<close> and \<^verbatim>\<open>libB.so\<close> depend on each other. The run for the target
  \<^verbatim>\<open>libA.so\<close> builds the graph with both edges, the closure of \<^verbatim>\<open>libA.so\<close> is computed without
  error and contains \<^verbatim>\<open>libA.so\<close> itself, and the target is copied along with \<^verbatim>\<open>libB.so\<close>. The
  loop starts from an empty result set and never compares a popped key with the root.
\<close>

theorem closure_contains_root_counterexample:
  "run_loop cyclic_env cyclic_schedule (initial_state cyclic_env cyclic_args) = Some (Inr cyclic_final)
   \<and> fmlookup (binary_deps cyclic_graph) ''libA.so'' = Some [''libB.so'']
   \<and> get_all_deps_for_binary ''libA.so'' cyclic_graph = Inr (Some {''libA.so'', ''libB.so''})
   \<and> main cyclic_env cyclic_args cyclic_schedule
       = Some (None, [Copy ''/b/libA.so'' ''/out'', Copy ''/b/libB.so'' ''/out''])"
  by code_simp

text \<open>
  C3 (amended): whenever the transitive-closure computation returns a set for a root key,
  that set contains the root key exactly when the root is reachable from itself by one or
  more edges, that is when it lies on a dependency cycle. For a root on no cycle, and so
  for every acyclic graph, the returned set does not contain the root.
\<close>

theorem closure_root_membership:
  assumes "get_all_deps_for_binary root jd = Inr (Some S)"
  shows "root \<in> S \<longleftrightarrow> (root, root) \<in> (edges (binary_deps jd))\<^sup>+"
  using get_all_deps_exact [OF assms] by (simp add: reachable_def)

text \<open>
  The amended C3 at the graph \<^verbatim>\<open>app -> libA.so, libB.so; libA.so -> libC.so\<close>.
\<close>

theorem closure_root_membership_witness:
  "get_all_deps_for_binary ''app'' example_graph = Inr (Some {''libA.so'', ''libB.so'', ''libC.so''}) \<and>
   (''app'', ''app'') \<notin> (edges (binary_deps example_graph))\<^sup>+"
  using closure_root_membership [OF example_graph_closure] example_graph_closure by simp




text \<open>
  C10: the transitive-closure computation returns \<^verbatim>\<open>None\<close> when the root key is not in the
  edge map; when the root key is present and some key reachable from it has no edge list,
  the lookup of such a key raises \<^verbatim>\<open>KeyError\<close>; and it returns a set exactly when the root is
  present and every reachable key has an edge list.
\<close>

theorem closure_total_only_on_closed_graphs:
  "(fmlookup (binary_deps jd) root = None \<longrightarrow> get_all_deps_for_binary root jd = Inr None) \<and>
   (fmlookup (binary_deps jd) root \<noteq> None \<and>
      (\<exists>k\<in>reachable (binary_deps jd) root. fmlookup (binary_deps jd) k = None) \<longrightarrow>
      (\<exists>k. get_all_deps_for_binary root jd = Inl (KeyError k) \<and> fmlookup (binary_deps jd) k = None
           \<and> k \<in> reachable (binary_deps jd) root)) \<and>
   ((\<exists>S. get_all_deps_for_binary root jd = Inr (Some S)) \<longleftrightarrow>
      fmlookup (binary_deps jd) root \<noteq> None \<and>
      (\<forall>k\<in>reachable (binary_deps jd) root. fmlookup (binary_deps jd) k \<noteq> None))"
proof (intro conjI impI)
  assume "fmlookup (binary_deps jd) root = None"
  then show "get_all_deps_for_binary root jd = Inr None" by (rule get_all_deps_absent)
next
  have returns: "fmlookup (binary_deps jd) root \<noteq> None \<and>
      (\<forall>k\<in>reachable (binary_deps jd) root. fmlookup (binary_deps jd) k \<noteq> None)"
    if "get_all_deps_for_binary root jd = Inr (Some S)" for S
  proof -
    from that have "fmlookup (binary_deps jd) root \<noteq> None"
      by (auto simp: get_all_deps_for_binary_def split: option.splits)
    moreover from get_all_deps_exact [OF that] get_all_deps_keys [OF that]
    have "\<forall>k\<in>reachable (binary_deps jd) root. fmlookup (binary_deps jd) k \<noteq> None" by blast
    ultimately show ?thesis by simp
  qed
  {
    assume a: "fmlookup (binary_deps jd) root \<noteq> None \<and>
      (\<exists>k\<in>reachable (binary_deps jd) root. fmlookup (binary_deps jd) k = None)"
    show "\<exists>k. get_all_deps_for_binary root jd = Inl (KeyError k) \<and> fmlookup (binary_deps jd) k = None
           \<and> k \<in> reachable (binary_deps jd) root"
    proof (cases "get_all_deps_for_binary root jd")
      case (Inl e)
      from get_all_deps_error [OF Inl] Inl show ?thesis by auto
    next
      case (Inr r)
      show ?thesis
      proof (cases r)
        case None
        with Inr a show ?thesis
          by (auto simp: get_all_deps_for_binary_def split: option.splits sum.splits)
      next
        case (Some S)
        with Inr returns [of S] a show ?thesis by blast
      qed
    qed
  }
  show "(\<exists>S. get_all_deps_for_binary root jd = Inr (Some S)) \<longleftrightarrow>
      fmlookup (binary_deps jd) root \<noteq> None \<and>
      (\<forall>k\<in>reachable (binary_deps jd) root. fmlookup (binary_deps jd) k \<noteq> None)"
    using returns get_all_deps_closed [of jd root] by blast
qed

text \<open>
  C10 at a graph in which \<^verbatim>\<open>libB.so\<close> is named by an edge list and has none of its own.
\<close>

theorem closure_total_only_on_closed_graphs_witness:
  "get_all_deps_for_binary ''plugin'' open_graph = Inr None \<and>
   ''libB.so'' \<in> reachable (binary_deps open_graph) ''app'' \<and>
   fmlookup (binary_deps open_graph) ''libB.so'' = None \<and>
   get_all_deps_for_binary ''app'' open_graph = Inl (KeyError ''libB.so'')"
proof -
  have absent: "fmlookup (binary_deps open_graph) ''plugin'' = None"
    by (simp add: open_graph_def)
  have present: "fmlookup (binary_deps open_graph) ''app'' \<noteq> None"
    by (simp add: open_graph_def)
  have "(''app'', ''libA.so'') \<in> edges (binary_deps open_graph)"
    and "(''libA.so'', ''libB.so'') \<in> edges (binary_deps open_graph)"
    by (simp_all add: edges_def open_graph_def)
  then have reach: "''libB.so'' \<in> reachable (binary_deps open_graph) ''app''"
    unfolding reachable_def by (simp add: trancl_into_trancl)
  have missing: "fmlookup (binary_deps open_graph) ''libB.so'' = None"
    by (simp add: open_graph_def)
  have run: "get_all_deps_for_binary ''app'' open_graph = Inl (KeyError ''libB.so'')"
    unfolding open_graph_def by (simp add: get_all_deps_for_binary_def closure_loop.simps)
  from closure_total_only_on_closed_graphs [of open_graph "''plugin''"] absent
  have 1: "get_all_deps_for_binary ''plugin'' open_graph = Inr None" by simp
  from closure_total_only_on_closed_graphs [of open_graph "''app''"] present reach missing
  have "\<exists>k. get_all_deps_for_binary ''app'' open_graph = Inl (KeyError k)" by blast
  with 1 reach missing run show ?thesis by simp
qed

text \<open>
  C9: the document that \<^verbatim>\<open>json.dump\<close> writes for a graph (\<^verbatim>\<open>binary_deps\<close> as an object from key
  to the list of dependency keys, \<^verbatim>\<open>binary_locations\<close> as an object from key to path) is read
  back as a structure with the same two mappings, and the transitive closure of any root
  computed from it is the one computed from the graph in memory.
\<close>

theorem closure_survives_json_round_trip:
  "\<exists>jd'. json_load (json_dump jd) = Some jd'
      \<and> binary_deps jd' = binary_deps jd \<and> binary_locations jd' = binary_locations jd
      \<and> get_all_deps_for_binary root jd' = get_all_deps_for_binary root jd"
  using json_round_trip [of jd] by simp

text \<open>C9 at the example graph: the document written, and the closure from the document read back.\<close>

theorem closure_survives_json_round_trip_witness:
  "json_dump example_graph =
     JObject
       [(''binary_deps'',
         JObject [(''app'', JArray [JString ''libA.so'', JString ''libB.so'']),
                  (''libA.so'', JArray [JString ''libC.so'']),
                  (''libB.so'', JArray []), (''libC.so'', JArray [])]),
        (''binary_locations'',
         JObject [(''app'', JString ''/b/app''), (''libA.so'', JString ''/b/libA.so''),
                  (''libB.so'', JString ''/b/libB.so''), (''libC.so'', JString ''/b/libC.so'')])]
   \<and> get_all_deps_for_binary ''app'' (the (json_load (json_dump example_graph)))
       = Inr (Some {''libA.so'', ''libB.so'', ''libC.so''})"
proof -
  have dump: "json_dump example_graph =
     JObject
       [(''binary_deps'',
         JObject [(''app'', JArray [JString ''libA.so'', JString ''libB.so'']),
                  (''libA.so'', JArray [JString ''libC.so'']),
                  (''libB.so'', JArray []), (''libC.so'', JArray [])]),
        (''binary_locations'',
         JObject [(''app'', JString ''/b/app''), (''libA.so'', JString ''/b/libA.so''),
                  (''libB.so'', JString ''/b/libB.so''), (''libC.so'', JString ''/b/libC.so'')])]"
    by code_simp
  from closure_survives_json_round_trip [of example_graph "''app''"] obtain jd' where
    "json_load (json_dump example_graph) = Some jd'"
    "get_all_deps_for_binary ''app'' jd' = get_all_deps_for_binary ''app'' example_graph"
    by blast
  with example_graph_closure dump show ?thesis by simp
qed

section \<open>Claims about the parser and the lister\<close>

text \<open>
  C4: a parsed entry that is not skipped and for which no search directory holds a file
  of its name makes the lister end the run with \<^verbatim>\<open>sys.exit(1)\<close>, with one message when the
  listing said \<^verbatim>\<open>not found\<close> and another when it reported a location; the call of the
  lister on an output with such a line fails with exit status 1, and so does the run,
  having written nothing. Every pair the lister returns has a location that was found as
  a file in one of the search directories.
\<close>

theorem unresolved_dependency_is_fatal:
  "(ldd_regex_match (strip raw_line) = Some (dep_name, ldd_dep_location)
      \<and> \<not> skipped env (path_basename env binary_path) dep_name ldd_dep_location
      \<and> (search_dep_location env dep_name dirs = None \<or> search_dep_location env dep_name dirs = Some [])
    \<longrightarrow> process_line env binary_path dirs raw_line ret =
          (if ldd_dep_location = ''not found'' then
             Inl (SystemExit 1 (binary_path @ '' depends on '' @ dep_name
                    @ '' but ldd could not find its location.''))
           else
             Inl (SystemExit 1 (''Could not find '' @ dep_name
                    @ '' in search path, but ldd found it at '' @ ldd_dep_location
                    @ ''. Please update search paths and run again.'' @ [CHR 0x0A])))
        \<and> (raw_line \<in> set (readlines (ldd_stdout env binary_path)) \<longrightarrow>
             (\<exists>e. get_deps_for_binary env binary_path dirs = Inl e \<and> exit_status e = 1
                \<and> (run_lists env args pre x binary_path dirs \<longrightarrow>
                     main env args (pre @ (x, order) # post) = Some (Some e, preparation env args)))))
   \<and> (get_deps_for_binary env binary_path dirs = Inr ret' \<and> (name, location) \<in> ret' \<longrightarrow>
        (\<exists>d\<in>set dirs. path_exists env (path_join env d name) \<and> path_isfile env (path_join env d name)
            \<and> fix_location env (path_join env d name) = Inr location))"
proof (intro conjI impI)
  assume a: "ldd_regex_match (strip raw_line) = Some (dep_name, ldd_dep_location)
      \<and> \<not> skipped env (path_basename env binary_path) dep_name ldd_dep_location
      \<and> (search_dep_location env dep_name dirs = None \<or> search_dep_location env dep_name dirs = Some [])"
  then have fails: "process_line env binary_path dirs raw_line r =
          (if ldd_dep_location = ''not found'' then
             Inl (SystemExit 1 (binary_path @ '' depends on '' @ dep_name
                    @ '' but ldd could not find its location.''))
           else
             Inl (SystemExit 1 (''Could not find '' @ dep_name
                    @ '' in search path, but ldd found it at '' @ ldd_dep_location
                    @ ''. Please update search paths and run again.'' @ [CHR 0x0A])))" for r
    by (intro process_line_unresolved) simp_all
  from fails show "process_line env binary_path dirs raw_line ret =
          (if ldd_dep_location = ''not found'' then
             Inl (SystemExit 1 (binary_path @ '' depends on '' @ dep_name
                    @ '' but ldd could not find its location.''))
           else
             Inl (SystemExit 1 (''Could not find '' @ dep_name
                    @ '' in search path, but ldd found it at '' @ ldd_dep_location
                    @ ''. Please update search paths and run again.'' @ [CHR 0x0A])))" .
  assume line: "raw_line \<in> set (readlines (ldd_stdout env binary_path))"
  have "\<exists>e. process_line env binary_path dirs raw_line r = Inl e" for r
    using fails [of r] by (simp split: if_splits)
  from get_deps_fails [OF line this] obtain e where
    e: "get_deps_for_binary env binary_path dirs = Inl e" "exit_status e = 1" by blast
  with lister_failure_ends_run [of env args pre x binary_path dirs e order post]
  show "\<exists>e. get_deps_for_binary env binary_path dirs = Inl e \<and> exit_status e = 1
          \<and> (run_lists env args pre x binary_path dirs \<longrightarrow>
               main env args (pre @ (x, order) # post) = Some (Some e, preparation env args))"
    by blast
next
  assume "get_deps_for_binary env binary_path dirs = Inr ret' \<and> (name, location) \<in> ret'"
  then show "\<exists>d\<in>set dirs. path_exists env (path_join env d name) \<and> path_isfile env (path_join env d name)
            \<and> fix_location env (path_join env d name) = Inr location"
    using get_deps_verified by blast
qed

text \<open>
  C4 at a binary whose listing says \<^verbatim>\<open>libX.so => not found\<close>, at a line that reports a location
  outside the search directories, and at a listing whose entry is found.
\<close>

theorem unresolved_dependency_is_fatal_witness:
  "process_line missing_env ''/b/app'' [''/b''] (ldd_text [''libX.so => not found'']) {}
     = Inl (SystemExit 1 ''/b/app depends on libX.so but ldd could not find its location.'')
   \<and> process_line missing_env ''/b/app'' [''/b''] (ldd_text [''libY.so => /usr/lib/libY.so (0x1)'']) {}
     = Inl (SystemExit 1 (''Could not find libY.so in search path, but ldd found it at ''
              @ ''/usr/lib/libY.so. Please update search paths and run again.'' @ [CHR 0x0A]))
   \<and> main missing_env missing_args [(''app'', [])]
     = Some (Some (SystemExit 1 ''/b/app depends on libX.so but ldd could not find its location.''), [])
   \<and> get_deps_for_binary conflict_env ''/r/app'' [''/d'', ''/r''] = Inr {(''libA.so'', ''/d/libA.so'')}
   \<and> path_isfile conflict_env (path_join conflict_env ''/d'' ''libA.so'')
   \<and> fix_location conflict_env (path_join conflict_env ''/d'' ''libA.so'') = Inr ''/d/libA.so''"
proof -
  have m1: "ldd_regex_match (strip (ldd_text [''libX.so => not found''])) = Some (''libX.so'', ''not found'')"
    by code_simp
  have m2: "ldd_regex_match (strip (ldd_text [''libY.so => /usr/lib/libY.so (0x1)'']))
      = Some (''libY.so'', ''/usr/lib/libY.so'')"
    by code_simp
  have s1: "\<not> skipped missing_env (path_basename missing_env ''/b/app'') ''libX.so'' ''not found''"
    by code_simp
  have s2: "\<not> skipped missing_env (path_basename missing_env ''/b/app'') ''libY.so'' ''/usr/lib/libY.so''"
    by code_simp
  have r1: "search_dep_location missing_env ''libX.so'' [''/b''] = None"
    by code_simp
  have r2: "search_dep_location missing_env ''libY.so'' [''/b''] = None"
    by code_simp
  have line: "ldd_text [''libX.so => not found''] \<in> set (readlines (ldd_stdout missing_env ''/b/app''))"
    by code_simp
  have lists: "run_lists missing_env missing_args [] ''app'' ''/b/app'' [''/b'']"
    by code_simp
  have prep: "preparation missing_env missing_args = []"
    by code_simp
  have ok: "get_deps_for_binary conflict_env ''/r/app'' [''/d'', ''/r''] = Inr {(''libA.so'', ''/d/libA.so'')}"
    by code_simp
  note first = unresolved_dependency_is_fatal
    [where raw_line = "ldd_text [''libX.so => not found'']" and dep_name = "''libX.so''"
       and ldd_dep_location = "''not found''" and env = missing_env and binary_path = "''/b/app''"
       and dirs = "[''/b'']" and ret = "{}" and args = missing_args and pre = "[]" and x = "''app''"
       and order = "[]" and post = "[]"]
  note second = unresolved_dependency_is_fatal
    [where raw_line = "ldd_text [''libY.so => /usr/lib/libY.so (0x1)'']" and dep_name = "''libY.so''"
       and ldd_dep_location = "''/usr/lib/libY.so''" and env = missing_env and binary_path = "''/b/app''"
       and dirs = "[''/b'']" and ret = "{}"]
  note third = unresolved_dependency_is_fatal
    [where env = conflict_env and binary_path = "''/r/app''" and dirs = "[''/d'', ''/r'']"
       and ret' = "{(''libA.so'', ''/d/libA.so'')}" and name = "''libA.so''"
       and location = "''/d/libA.so''"]
  from first m1 s1 r1 have c1: "process_line missing_env ''/b/app'' [''/b''] (ldd_text [''libX.so => not found'']) {}
     = Inl (SystemExit 1 ''/b/app depends on libX.so but ldd could not find its location.'')"
    by simp
  from first m1 s1 r1 line lists obtain e where
    e: "get_deps_for_binary missing_env ''/b/app'' [''/b''] = Inl e"
    "main missing_env missing_args ([] @ (''app'', []) # []) = Some (Some e, preparation missing_env missing_args)"
    by blast
  have "get_deps_for_binary missing_env ''/b/app'' [''/b'']
      = Inl (SystemExit 1 ''/b/app depends on libX.so but ldd could not find its location.'')"
    by code_simp
  with e prep have c3: "main missing_env missing_args [(''app'', [])]
     = Some (Some (SystemExit 1 ''/b/app depends on libX.so but ldd could not find its location.''), [])"
    by simp
  from second m2 s2 r2 have c2: "process_line missing_env ''/b/app'' [''/b'']
       (ldd_text [''libY.so => /usr/lib/libY.so (0x1)'']) {}
     = Inl (SystemExit 1 (''Could not find libY.so in search path, but ldd found it at ''
              @ ''/usr/lib/libY.so. Please update search paths and run again.'' @ [CHR 0x0A]))"
    by simp
  from third [THEN conjunct2] ok obtain d where d: "d \<in> set [''/d'', ''/r'']"
    "path_isfile conflict_env (path_join conflict_env d ''libA.so'')"
    "fix_location conflict_env (path_join conflict_env d ''libA.so'') = Inr ''/d/libA.so''"
    by auto
  have "\<not> path_isfile conflict_env (path_join conflict_env ''/r'' ''libA.so'')"
    by code_simp
  with d have c4: "path_isfile conflict_env (path_join conflict_env ''/d'' ''libA.so'')"
    "fix_location conflict_env (path_join conflict_env ''/d'' ''libA.so'') = Inr ''/d/libA.so''"
    by auto
  from c1 c2 c3 ok c4 show ?thesis by simp
qed

text \<open>
  C5: every line either matches the pattern of an entry, or is one of the benign lines and
  leaves the result as it is, or ends the run with \<^verbatim>\<open>sys.exit(1)\<close> and a message that quotes
  the line. An output with an unrecognized line makes the call of the lister, and the
  run, fail with exit status 1; a call that returns has recognized every line.
\<close>

theorem every_line_recognized_or_fatal:
  "((\<exists>dep_name ldd_dep_location.
        ldd_regex_match (strip raw_line) = Some (dep_name, ldd_dep_location))
    \<or> (ldd_regex_match (strip raw_line) = None \<and> benign_line (strip raw_line)
        \<and> process_line env binary_path dirs raw_line ret = Inr ret)
    \<or> (ldd_regex_match (strip raw_line) = None \<and> \<not> benign_line (strip raw_line)
        \<and> process_line env binary_path dirs raw_line ret
            = Inl (SystemExit 1 (''Unexpected line in ldd output: '' @ strip raw_line))))
   \<and> (raw_line \<in> set (readlines (ldd_stdout env binary_path))
        \<and> ldd_regex_match (strip raw_line) = None \<and> \<not> benign_line (strip raw_line) \<longrightarrow>
        (\<exists>e. get_deps_for_binary env binary_path dirs = Inl e \<and> exit_status e = 1
           \<and> (run_lists env args pre x binary_path dirs \<longrightarrow>
                main env args (pre @ (x, order) # post) = Some (Some e, preparation env args))))
   \<and> (get_deps_for_binary env binary_path dirs = Inr ret' \<longrightarrow>
        (\<forall>l\<in>set (readlines (ldd_stdout env binary_path)).
            ldd_regex_match (strip l) \<noteq> None \<or> benign_line (strip l)))"
proof (intro conjI impI)
  show "(\<exists>dep_name ldd_dep_location.
        ldd_regex_match (strip raw_line) = Some (dep_name, ldd_dep_location))
    \<or> (ldd_regex_match (strip raw_line) = None \<and> benign_line (strip raw_line)
        \<and> process_line env binary_path dirs raw_line ret = Inr ret)
    \<or> (ldd_regex_match (strip raw_line) = None \<and> \<not> benign_line (strip raw_line)
        \<and> process_line env binary_path dirs raw_line ret
            = Inl (SystemExit 1 (''Unexpected line in ldd output: '' @ strip raw_line)))"
  proof (cases "ldd_regex_match (strip raw_line)")
    case None
    then show ?thesis
      using process_line_benign [of raw_line env binary_path dirs ret]
        process_line_unrecognized [of raw_line env binary_path dirs ret]
      by (cases "benign_line (strip raw_line)") simp_all
  next
    case (Some m)
    then show ?thesis by (cases m) simp
  qed
next
  assume a: "raw_line \<in> set (readlines (ldd_stdout env binary_path))
        \<and> ldd_regex_match (strip raw_line) = None \<and> \<not> benign_line (strip raw_line)"
  then have "\<exists>e. process_line env binary_path dirs raw_line r = Inl e" for r
    using process_line_unrecognized [of raw_line env binary_path dirs r] by simp
  with a get_deps_fails [of raw_line env binary_path dirs] obtain e where
    e: "get_deps_for_binary env binary_path dirs = Inl e" "exit_status e = 1" by blast
  with lister_failure_ends_run [of env args pre x binary_path dirs e order post]
  show "\<exists>e. get_deps_for_binary env binary_path dirs = Inl e \<and> exit_status e = 1
          \<and> (run_lists env args pre x binary_path dirs \<longrightarrow>
               main env args (pre @ (x, order) # post) = Some (Some e, preparation env args))"
    by blast
next
  assume "get_deps_for_binary env binary_path dirs = Inr ret'"
  then show "\<forall>l\<in>set (readlines (ldd_stdout env binary_path)).
            ldd_regex_match (strip l) \<noteq> None \<or> benign_line (strip l)"
    unfolding get_deps_for_binary_def using ldd_loop_recognized by blast
qed

text \<open>
  C5 at an output with the benign line \<^verbatim>\<open>statically linked\<close> and an unrecognized line.
\<close>

theorem every_line_recognized_or_fatal_witness:
  "process_line garbled_env ''/b/app'' [''/b''] (ldd_text [''statically linked'']) {} = Inr {}
   \<and> process_line garbled_env ''/b/app'' [''/b''] (ldd_text [''not a dynamic executable'']) {}
     = Inl (SystemExit 1 ''Unexpected line in ldd output: not a dynamic executable'')
   \<and> main garbled_env missing_args [(''app'', [])]
     = Some (Some (SystemExit 1 ''Unexpected line in ldd output: not a dynamic executable''), [])"
proof -
  have b: "ldd_regex_match (strip (ldd_text [''statically linked''])) = None"
    "benign_line (strip (ldd_text [''statically linked'']))"
    by code_simp+
  have u: "ldd_regex_match (strip (ldd_text [''not a dynamic executable''])) = None"
    "\<not> benign_line (strip (ldd_text [''not a dynamic executable'']))"
    by code_simp+
  have stripped: "strip (ldd_text [''not a dynamic executable'']) = ''not a dynamic executable''"
    by code_simp
  have line: "ldd_text [''not a dynamic executable''] \<in> set (readlines (ldd_stdout garbled_env ''/b/app''))"
    by code_simp
  have lists: "run_lists garbled_env missing_args [] ''app'' ''/b/app'' [''/b'']"
    by code_simp
  have prep: "preparation garbled_env missing_args = []"
    by code_simp
  note first = every_line_recognized_or_fatal
    [where raw_line = "ldd_text [''statically linked'']" and env = garbled_env
       and binary_path = "''/b/app''" and dirs = "[''/b'']" and ret = "{}"]
  note second = every_line_recognized_or_fatal
    [where raw_line = "ldd_text [''not a dynamic executable'']" and env = garbled_env
       and binary_path = "''/b/app''" and dirs = "[''/b'']" and ret = "{}" and args = missing_args
       and pre = "[]" and x = "''app''" and order = "[]" and post = "[]"]
  from first b have c1: "process_line garbled_env ''/b/app'' [''/b''] (ldd_text [''statically linked'']) {} = Inr {}"
    by simp
  from second u stripped have c2: "process_line garbled_env ''/b/app'' [''/b'']
       (ldd_text [''not a dynamic executable'']) {}
     = Inl (SystemExit 1 ''Unexpected line in ldd output: not a dynamic executable'')"
    by simp
  from second u line lists obtain e where
    e: "get_deps_for_binary garbled_env ''/b/app'' [''/b''] = Inl e"
    "main garbled_env missing_args ([] @ (''app'', []) # []) = Some (Some e, preparation garbled_env missing_args)"
    by blast
  have "get_deps_for_binary garbled_env ''/b/app'' [''/b'']
      = Inl (SystemExit 1 ''Unexpected line in ldd output: not a dynamic executable'')"
    by code_simp
  with e prep have c3: "main garbled_env missing_args [(''app'', [])]
     = Some (Some (SystemExit 1 ''Unexpected line in ldd output: not a dynamic executable''), [])"
    by simp
  from c1 c2 c3 show ?thesis by simp
qed

text \<open>
  C6, a defect of the code: the source means to skip an entry that names the binary itself
  (\<^verbatim>\<open># Skip self, Windows DLLs, and platform system libraries\<close>), and tests it by comparing
  the entry's name with the base name of the path it was given. For the key \<^verbatim>\<open>sub/libx.so\<close>,
  recorded at \<^verbatim>\<open>/b/sub/libx.so\<close>, that base name is \<^verbatim>\<open>libx.so\<close>: the entry
  \<^verbatim>\<open>sub/libx.so => /b/sub/libx.so\<close> in the binary's own listing is kept, and the finished
  graph has the edge from \<^verbatim>\<open>sub/libx.so\<close> to itself.
\<close>

theorem self_entry_with_directory_is_kept:
  "run_loop slash_env slash_schedule (initial_state slash_env slash_args) = Some (Inr slash_final)
   \<and> ldd_regex_match (strip ([CHR 0x09] @ ''sub/libx.so => /b/sub/libx.so (0x2)'' @ [CHR 0x0A]))
       = Some (''sub/libx.so'', ''/b/sub/libx.so'')
   \<and> fmlookup (binary_deps_map slash_final) ''sub/libx.so'' = Some [''sub/libx.so'']"
  by code_simp

text \<open>
  What the skip test does do: an entry whose name equals the base name of the path under
  which the binary is listed, or whose raw location contains \<^verbatim>\<open>/c/windows/system\<close> or
  \<^verbatim>\<open>/c/windows/winsxs/\<close> (in any letter case) or one of the system-library names of the
  platform, leaves the lister's result as it is. Every pair the lister returns comes from
  an entry that is not skipped. A pass of the loop records as the edges of the binary
  exactly the names the lister returned and adds exactly these names to the location map;
  when the binary is recorded under a path whose base name is its key, its own key is not
  among its edges.
\<close>

lemma skipped_entries_contribute_nothing:
  "(ldd_regex_match (strip raw_line) = Some (dep_name, ldd_dep_location)
      \<and> (dep_name = path_basename env binary_path
          \<or> substring_in ''/c/windows/system'' ldd_dep_location
          \<or> substring_in ''/c/windows/winsxs/'' ldd_dep_location
          \<or> substring_in ''/c/windows/system'' (lower ldd_dep_location)
          \<or> substring_in ''/c/windows/winsxs/'' (lower ldd_dep_location)
          \<or> (\<exists>lib_name\<in>set (system_libs_to_skip env). substring_in lib_name ldd_dep_location))
    \<longrightarrow> process_line env binary_path dirs raw_line ret = Inr ret)
   \<and> (get_deps_for_binary env binary_path dirs = Inr ret' \<and> (name, location) \<in> ret' \<longrightarrow>
        name \<noteq> path_basename env binary_path
        \<and> (\<exists>l\<in>set (readlines (ldd_stdout env binary_path)). \<exists>loc.
              ldd_regex_match (strip l) = Some (name, loc)
              \<and> \<not> skipped env (path_basename env binary_path) name loc))
   \<and> (x \<notin> deps_visited st \<and> loop_body env x order st = Some (Inr st') \<longrightarrow>
        (\<exists>binary_location dep_info_list.
            fmlookup (binary_name_to_location_map st) x = Some binary_location
            \<and> get_deps_for_binary env binary_location
                 (search_directories st @ [path_dirname env binary_location]) = Inr dep_info_list
            \<and> binary_deps_map st'
                = fmupd x (sorted_list_of_set (fst ` dep_info_list)) (binary_deps_map st)
            \<and> fmdom' (binary_name_to_location_map st')
                = fmdom' (binary_name_to_location_map st) \<union> fst ` dep_info_list
            \<and> (path_basename env binary_location = x \<longrightarrow> x \<notin> fst ` dep_info_list)))"
proof (intro conjI impI)
  assume "ldd_regex_match (strip raw_line) = Some (dep_name, ldd_dep_location)
      \<and> (dep_name = path_basename env binary_path
          \<or> substring_in ''/c/windows/system'' ldd_dep_location
          \<or> substring_in ''/c/windows/winsxs/'' ldd_dep_location
          \<or> substring_in ''/c/windows/system'' (lower ldd_dep_location)
          \<or> substring_in ''/c/windows/winsxs/'' (lower ldd_dep_location)
          \<or> (\<exists>lib_name\<in>set (system_libs_to_skip env). substring_in lib_name ldd_dep_location))"
  then have "ldd_regex_match (strip raw_line) = Some (dep_name, ldd_dep_location)"
    and "skipped env (path_basename env binary_path) dep_name ldd_dep_location"
    using skipped_when_matched [of dep_name "path_basename env binary_path" ldd_dep_location env]
    by blast+
  then show "process_line env binary_path dirs raw_line ret = Inr ret"
    by (rule process_line_skipped)
next
  assume a: "get_deps_for_binary env binary_path dirs = Inr ret' \<and> (name, location) \<in> ret'"
  then obtain l loc where l: "l \<in> set (readlines (ldd_stdout env binary_path))"
    "ldd_regex_match (strip l) = Some (name, loc)"
    "\<not> skipped env (path_basename env binary_path) name loc"
    using get_deps_origin [of env binary_path dirs ret' name location] by blast
  from l(3) show "name \<noteq> path_basename env binary_path" by (auto simp: skipped_def)
  from l show "\<exists>l\<in>set (readlines (ldd_stdout env binary_path)). \<exists>loc.
              ldd_regex_match (strip l) = Some (name, loc)
              \<and> \<not> skipped env (path_basename env binary_path) name loc" by blast
next
  assume "x \<notin> deps_visited st \<and> loop_body env x order st = Some (Inr st')"
  with loop_body_records [of x st env order st'] obtain binary_location dep_info_list where
    r: "fmlookup (binary_name_to_location_map st) x = Some binary_location"
    "get_deps_for_binary env binary_location
        (search_directories st @ [path_dirname env binary_location]) = Inr dep_info_list"
    "binary_deps_map st' = fmupd x (sorted_list_of_set (fst ` dep_info_list)) (binary_deps_map st)"
    "fmdom' (binary_name_to_location_map st')
        = fmdom' (binary_name_to_location_map st) \<union> fst ` dep_info_list"
    by blast
  have "x \<notin> fst ` dep_info_list" if "path_basename env binary_location = x"
  proof
    assume "x \<in> fst ` dep_info_list"
    then obtain location where "(x, location) \<in> dep_info_list" by auto
    from get_deps_origin [OF r(2) this] that show False by (auto simp: skipped_def)
  qed
  with r show "\<exists>binary_location dep_info_list.
            fmlookup (binary_name_to_location_map st) x = Some binary_location
            \<and> get_deps_for_binary env binary_location
                 (search_directories st @ [path_dirname env binary_location]) = Inr dep_info_list
            \<and> binary_deps_map st'
                = fmupd x (sorted_list_of_set (fst ` dep_info_list)) (binary_deps_map st)
            \<and> fmdom' (binary_name_to_location_map st')
                = fmdom' (binary_name_to_location_map st) \<union> fst ` dep_info_list
            \<and> (path_basename env binary_location = x \<longrightarrow> x \<notin> fst ` dep_info_list)"
    by blast
qed

text \<open>
  The skip test at a listing with the binary itself, a system library and a Windows system
  path, and at the pass of the loop for \<^verbatim>\<open>app\<close>.
\<close>

lemma skipped_entries_contribute_nothing_example:
  "process_line skipping_env ''/b/app'' [''/b''] (ldd_text [''app => /b/app (0x1)'']) {} = Inr {}
   \<and> process_line skipping_env ''/b/app'' [''/b''] (ldd_text [''libc.so.6 => /lib/libc.so.6 (0x2)'']) {}
     = Inr {}
   \<and> process_line skipping_env ''/b/app'' [''/b'']
       (ldd_text [''gdi32.dll => /c/Windows/System32/gdi32.dll (0x3)'']) {} = Inr {}
   \<and> get_deps_for_binary skipping_env ''/b/app'' [''/b''] = Inr {(''libA.so'', ''/b/libA.so'')}
   \<and> ''libA.so'' \<noteq> path_basename skipping_env ''/b/app''
   \<and> binary_deps_map conflict_state = fmupd ''app'' [''libA.so''] fmempty"
proof -
  have m1: "ldd_regex_match (strip (ldd_text [''app => /b/app (0x1)''])) = Some (''app'', ''/b/app'')"
    by code_simp
  have m2: "ldd_regex_match (strip (ldd_text [''libc.so.6 => /lib/libc.so.6 (0x2)'']))
      = Some (''libc.so.6'', ''/lib/libc.so.6'')"
    by code_simp
  have m3: "ldd_regex_match (strip (ldd_text [''gdi32.dll => /c/Windows/System32/gdi32.dll (0x3)'']))
      = Some (''gdi32.dll'', ''/c/Windows/System32/gdi32.dll'')"
    by code_simp
  have h1: "''app'' = path_basename skipping_env ''/b/app''"
    by code_simp
  have "''libc.so'' \<in> set (system_libs_to_skip skipping_env)" "substring_in ''libc.so'' ''/lib/libc.so.6''"
    by code_simp+
  then have h2: "\<exists>lib_name\<in>set (system_libs_to_skip skipping_env). substring_in lib_name ''/lib/libc.so.6''"
    by blast
  have h3: "substring_in ''/c/windows/system'' (lower ''/c/Windows/System32/gdi32.dll'')"
    by code_simp
  have ok: "get_deps_for_binary skipping_env ''/b/app'' [''/b''] = Inr {(''libA.so'', ''/b/libA.so'')}"
    by code_simp
  have body: "loop_body conflict_env ''app'' [(''libA.so'', ''/d/libA.so'')]
      ((initial_state conflict_env conflict_args)\<lparr>deps_remaining := {}\<rparr>) = Some (Inr conflict_state)"
    by code_simp
  have fresh: "''app'' \<notin> deps_visited ((initial_state conflict_env conflict_args)\<lparr>deps_remaining := {}\<rparr>)"
    by (simp add: initial_state_def)
  have start: "fmlookup (binary_name_to_location_map
        ((initial_state conflict_env conflict_args)\<lparr>deps_remaining := {}\<rparr>)) ''app'' = Some ''/r/app''"
    "search_directories ((initial_state conflict_env conflict_args)\<lparr>deps_remaining := {}\<rparr>) = [''/d'']"
    "binary_deps_map ((initial_state conflict_env conflict_args)\<lparr>deps_remaining := {}\<rparr>) = fmempty"
    "path_dirname conflict_env ''/r/app'' = ''/r''"
    by code_simp+
  have listed: "get_deps_for_binary conflict_env ''/r/app'' [''/d'', ''/r''] = Inr {(''libA.so'', ''/d/libA.so'')}"
    by code_simp
  note line1 = skipped_entries_contribute_nothing
    [where raw_line = "ldd_text [''app => /b/app (0x1)'']" and dep_name = "''app''"
       and ldd_dep_location = "''/b/app''" and env = skipping_env and binary_path = "''/b/app''"
       and dirs = "[''/b'']" and ret = "{}" and ret' = "{(''libA.so'', ''/b/libA.so'')}"
       and name = "''libA.so''" and location = "''/b/libA.so''"]
  note line2 = skipped_entries_contribute_nothing
    [where raw_line = "ldd_text [''libc.so.6 => /lib/libc.so.6 (0x2)'']" and dep_name = "''libc.so.6''"
       and ldd_dep_location = "''/lib/libc.so.6''" and env = skipping_env and binary_path = "''/b/app''"
       and dirs = "[''/b'']" and ret = "{}"]
  note line3 = skipped_entries_contribute_nothing
    [where raw_line = "ldd_text [''gdi32.dll => /c/Windows/System32/gdi32.dll (0x3)'']"
       and dep_name = "''gdi32.dll''" and ldd_dep_location = "''/c/Windows/System32/gdi32.dll''"
       and env = skipping_env and binary_path = "''/b/app''" and dirs = "[''/b'']" and ret = "{}"]
  note pass = skipped_entries_contribute_nothing
    [where env = conflict_env and x = "''app''" and order = "[(''libA.so'', ''/d/libA.so'')]"
       and st = "(initial_state conflict_env conflict_args)\<lparr>deps_remaining := {}\<rparr>"
       and st' = conflict_state]
  from line1 m1 h1 have c1: "process_line skipping_env ''/b/app'' [''/b'']
      (ldd_text [''app => /b/app (0x1)'']) {} = Inr {}"
    by blast
  from line1 ok have c5: "''libA.so'' \<noteq> path_basename skipping_env ''/b/app''"
    by blast
  from line2 m2 h2 have c2: "process_line skipping_env ''/b/app'' [''/b'']
      (ldd_text [''libc.so.6 => /lib/libc.so.6 (0x2)'']) {} = Inr {}"
    by blast
  from line3 m3 h3 have c3: "process_line skipping_env ''/b/app'' [''/b'']
      (ldd_text [''gdi32.dll => /c/Windows/System32/gdi32.dll (0x3)'']) {} = Inr {}"
    by blast
  from pass fresh body obtain binary_location dep_info_list where
    r: "fmlookup (binary_name_to_location_map
          ((initial_state conflict_env conflict_args)\<lparr>deps_remaining := {}\<rparr>)) ''app''
        = Some binary_location"
    "get_deps_for_binary conflict_env binary_location
       (search_directories ((initial_state conflict_env conflict_args)\<lparr>deps_remaining := {}\<rparr>)
        @ [path_dirname conflict_env binary_location]) = Inr dep_info_list"
    "binary_deps_map conflict_state
       = fmupd ''app'' (sorted_list_of_set (fst ` dep_info_list))
           (binary_deps_map ((initial_state conflict_env conflict_args)\<lparr>deps_remaining := {}\<rparr>))"
    by blast
  from r(1) start(1) have "binary_location = ''/r/app''" by simp
  with r(2) start(2,4) listed have "dep_info_list = {(''libA.so'', ''/d/libA.so'')}" by simp
  with r(3) start(3) have c6: "binary_deps_map conflict_state = fmupd ''app'' [''libA.so''] fmempty"
    by simp
  from c1 c2 c3 ok c5 c6 show ?thesis by simp
qed

section \<open>Claims about the graph builder and the run\<close>

text \<open>
  C1: take any run that has reached the head of the loop and pops a pending key whose
  listing resolves some dependency name to a location that \<^verbatim>\<open>os.path.samefile\<close> finds
  different from the location already recorded for that name. Whatever the iteration
  order, and whatever the schedule would do afterwards, the run ends with exit status 1,
  and nothing has been copied to the output directory and neither the JSON file nor the
  manifest has been written.
\<close>

theorem conflict_aborts_before_any_output:
  assumes "path_exists env (target_binary args)" and "path_isfile env (target_binary args)"
    and "path_isdir env (output_directory args)"
    and "loop_head_after env pre (initial_state env args) = Some st"
    and "x \<in> deps_remaining st"
    and "fmlookup (binary_name_to_location_map st) x = Some location"
    and "get_deps_for_binary env location (search_directories st @ [path_dirname env location])
           = Inr dep_info_list"
    and "set order = dep_info_list" and "distinct order"
    and "(dep_name, dep_location) \<in> dep_info_list"
    and "fmlookup (binary_name_to_location_map st) dep_name = Some known"
    and "path_samefile env known dep_location = Some False"
  shows "\<exists>e effs. main env args (pre @ (x, order) # post) = Some (Some e, effs)
           \<and> exit_status e = 1 \<and> filter is_output effs = []"
proof -
  let ?st = "st\<lparr>deps_remaining := deps_remaining st - {x}\<rparr>"
  from loop_head_pending_not_visited [OF assms(4,5)] have nv: "x \<notin> deps_visited ?st" .
  from loop_body_conflict [OF nv, of location env dep_info_list order dep_name dep_location known]
    assms(6-12)
  obtain e where e: "loop_body env x order ?st = Some (Inl (e, search_directories ?st))"
    and status: "exit_status e = 1"
    by auto
  from main_loop_failure [OF assms(1-5) e]
  have "main env args (pre @ (x, order) # post) = Some (Some e, preparation env args)" .
  with status preparation_no_output show ?thesis by blast
qed

text \<open>
  C1 at a run in which \<^verbatim>\<open>libA.so\<close> lists the target \<^verbatim>\<open>app\<close>, found as \<^verbatim>\<open>/d/app\<close> while the target
  is \<^verbatim>\<open>/r/app\<close>.
\<close>

theorem conflict_aborts_before_any_output_witness:
  "main conflict_env conflict_args
     [(''app'', [(''libA.so'', ''/d/libA.so'')]), (''libA.so'', [(''app'', ''/d/app'')])]
   = Some (Some (SystemExit 1 (''app appears to have more than one location. ''
                   @ replicate 21 (CHR '' '') @ ''/r/app and /d/app'')), [])"
proof -
  have v: "path_exists conflict_env (target_binary conflict_args)"
    "path_isfile conflict_env (target_binary conflict_args)"
    "path_isdir conflict_env (output_directory conflict_args)"
    by (simp_all add: conflict_env_def conflict_args_def posix_env_def)
  have head: "loop_head_after conflict_env [(''app'', [(''libA.so'', ''/d/libA.so'')])]
      (initial_state conflict_env conflict_args) = Some conflict_state"
    by code_simp
  have pending: "''libA.so'' \<in> deps_remaining conflict_state"
    by (simp add: conflict_state_def)
  have loc: "fmlookup (binary_name_to_location_map conflict_state) ''libA.so'' = Some ''/d/libA.so''"
    by (simp add: conflict_state_def)
  have listed: "get_deps_for_binary conflict_env ''/d/libA.so''
      (search_directories conflict_state @ [path_dirname conflict_env ''/d/libA.so''])
      = Inr {(''app'', ''/d/app'')}"
    by code_simp
  have known: "fmlookup (binary_name_to_location_map conflict_state) ''app'' = Some ''/r/app''"
    by (simp add: conflict_state_def)
  have differ: "path_samefile conflict_env ''/r/app'' ''/d/app'' = Some False"
    by (simp add: conflict_env_def posix_env_def)
  from conflict_aborts_before_any_output [OF v head pending loc listed _ _ _ known differ,
      of "[(''app'', ''/d/app'')]" "[]"]
  obtain e effs where
    "main conflict_env conflict_args
       [(''app'', [(''libA.so'', ''/d/libA.so'')]), (''libA.so'', [(''app'', ''/d/app'')])]
     = Some (Some e, effs)" "filter is_output effs = []"
    by auto
  moreover have "main conflict_env conflict_args
       [(''app'', [(''libA.so'', ''/d/libA.so'')]), (''libA.so'', [(''app'', ''/d/app'')])]
     = Some (Some (SystemExit 1 (''app appears to have more than one location. ''
                   @ replicate 21 (CHR '' '') @ ''/r/app and /d/app'')), [])"
    by code_simp
  ultimately show ?thesis by simp
qed

text \<open>
  C2, as stated, fails: when the lister ends the run because \<^verbatim>\<open>libX.so\<close> cannot be found,
  the list that the caller supplied as \<^verbatim>\<open>["/d"]\<close> is \<^verbatim>\<open>["/d", "/b"]\<close>. The pop on line 175
  follows the call and is not in a \<^verbatim>\<open>finally\<close> clause.
\<close>

theorem search_directories_left_extended_counterexample:
  "list_dependencies_step missing_env ''/b/app'' [''/d'']
     = Inl (SystemExit 1 ''/b/app depends on libX.so but ldd could not find its location.'',
            [''/d'', ''/b''])"
  by code_simp

text \<open>
  C2 (amended): when the per-binary listing step returns, the search-directory list is
  exactly the list the caller supplied, so each pass of the loop that returns, and each
  head of the loop, has the list of the command line; when the lister ends the run (parse
  failure, unresolved dependency) the run exits with status 1 and with the directory of
  that binary still appended to the list.
\<close>

theorem search_directories_restored_on_return:
  "(list_dependencies_step env location dirs = Inr (dep_info_list, dirs') \<longrightarrow> dirs' = dirs)
   \<and> (list_dependencies_step env location dirs = Inl (e, dirs') \<longrightarrow>
        dirs' = dirs @ [path_dirname env location] \<and> exit_status e = 1)
   \<and> (loop_body env x order st = Some (Inr st') \<longrightarrow> search_directories st' = search_directories st)
   \<and> (loop_head_after env sched st = Some st' \<longrightarrow> search_directories st' = search_directories st)"
  using get_deps_status [of env location "dirs @ [path_dirname env location]" e]
  by (auto simp: list_dependencies_step_Inr list_dependencies_step_Inl
      loop_body_search_directories loop_head_after_search_directories)

text \<open>
  The amended C2 at the listing of \<^verbatim>\<open>/r/app\<close> and at the head of the loop after it.
\<close>

theorem search_directories_restored_on_return_witness:
  "list_dependencies_step conflict_env ''/r/app'' [''/d''] = Inr ({(''libA.so'', ''/d/libA.so'')}, [''/d''])
   \<and> search_directories conflict_state = search_directories (initial_state conflict_env conflict_args)"
proof -
  have step: "list_dependencies_step conflict_env ''/r/app'' [''/d'']
      = Inr ({(''libA.so'', ''/d/libA.so'')}, butlast ([''/d''] @ [path_dirname conflict_env ''/r/app'']))"
    by code_simp
  have head: "loop_head_after conflict_env [(''app'', [(''libA.so'', ''/d/libA.so'')])]
      (initial_state conflict_env conflict_args) = Some conflict_state"
    by code_simp
  from search_directories_restored_on_return
    [where env = conflict_env and location = "''/r/app''" and dirs = "[''/d'']"
       and dep_info_list = "{(''libA.so'', ''/d/libA.so'')}"
       and dirs' = "butlast ([''/d''] @ [path_dirname conflict_env ''/r/app''])"
       and st = "initial_state conflict_env conflict_args"
       and sched = "[(''app'', [(''libA.so'', ''/d/libA.so'')])]" and st' = conflict_state]
    step head
  show ?thesis by simp
qed

text \<open>
  C7: at the head of the loop after any number of passes, every key in an edge list of
  the dependency map is a key of the dependency map or is pending, and every key of the
  dependency map has an entry in the location map; when the loop ends nothing is pending,
  so every key in an edge list is a key of the dependency map.
\<close>

theorem graph_invariant_at_every_iteration:
  "(loop_head_after env sched (initial_state env args) = Some st \<longrightarrow> graph_invariant st)
   \<and> (run_loop env sched (initial_state env args) = Some (Inr st) \<longrightarrow>
        graph_invariant st \<and> deps_remaining st = {}
        \<and> (\<forall>k ds d. fmlookup (binary_deps_map st) k = Some ds \<and> d \<in> set ds \<longrightarrow>
              d \<in> fmdom' (binary_deps_map st)))"
proof (intro conjI impI)
  assume "loop_head_after env sched (initial_state env args) = Some st"
  from loop_head_after_invariant [OF initial_state_invariant this]
  show "graph_invariant st" by (simp add: builder_invariant_def)
next
  assume "run_loop env sched (initial_state env args) = Some (Inr st)"
  from run_loop_invariant [OF initial_state_invariant this]
  have inv: "graph_invariant st" and empty: "deps_remaining st = {}"
    by (simp_all add: builder_invariant_def)
  from inv show "graph_invariant st" .
  from empty show "deps_remaining st = {}" .
  from inv empty show "\<forall>k ds d. fmlookup (binary_deps_map st) k = Some ds \<and> d \<in> set ds \<longrightarrow>
        d \<in> fmdom' (binary_deps_map st)"
    unfolding graph_invariant_def by blast
qed

text \<open>
  C7 at the head of the loop after the pass for \<^verbatim>\<open>app\<close>, with \<^verbatim>\<open>libA.so\<close> pending.
\<close>

theorem graph_invariant_at_every_iteration_witness:
  "loop_head_after conflict_env [(''app'', [(''libA.so'', ''/d/libA.so'')])]
      (initial_state conflict_env conflict_args) = Some conflict_state
   \<and> graph_invariant conflict_state"
proof -
  have head: "loop_head_after conflict_env [(''app'', [(''libA.so'', ''/d/libA.so'')])]
      (initial_state conflict_env conflict_args) = Some conflict_state"
    by code_simp
  with graph_invariant_at_every_iteration
    [of conflict_env "[(''app'', [(''libA.so'', ''/d/libA.so'')])]" conflict_args conflict_state]
  show ?thesis by simp
qed

end

